theory Spec2Isabelle
  imports Complex_Main "HOL-Library.Word"
begin

unbundle bit_operations_syntax

section \<open>JavaScript numbers\<close>

text \<open>
  A JavaScript Number is an IEEE binary64 value. The finite Numbers are modelled as the
  reals that \<open>binary64\<close> leaves unchanged, and an arithmetic operator of the library is
  the exact operation followed by the rounding \<open>binary64\<close>. NaN and the infinities are
  not values of the model: a result beyond the largest finite Number is rounded as if the
  exponent had no upper limit, and the statements that depend on it bound their inputs so
  that no operation overflows. The values of a \<^verbatim>\<open>Uint32Array\<close> are \<^typ>\<open>32 word\<close>.
\<close>

text \<open>The nearest integer, a tie going to the even one.\<close>

definition rne :: "real \<Rightarrow> int" where
  "rne y = (let f = \<lfloor>y\<rfloor> in
     if y - of_int f < 1 / 2 then f
     else if 1 / 2 < y - of_int f then f + 1
     else if even f then f else f + 1)"

text \<open>The binary exponent of a positive \<open>x\<close>: the \<open>e\<close> with \<open>2 ^ e \<le> x < 2 ^ (e + 1)\<close>.\<close>

function binary_exponent :: "real \<Rightarrow> int" where
  "binary_exponent x =
     (if x \<le> 0 then 0
      else if 2 \<le> x then binary_exponent (x / 2) + 1
      else if x < 1 then binary_exponent (2 * x) - 1
      else 0)"
  by pat_completeness auto
termination
proof (relation "measure (\<lambda>x. nat \<bar>\<lfloor>log 2 x\<rfloor>\<bar>)")
  show "wf (measure (\<lambda>x. nat \<bar>\<lfloor>log 2 x\<rfloor>\<bar>))" by simp
next
  fix x :: real
  assume "\<not> x \<le> 0" "2 \<le> x"
  then have "log 2 (x / 2) = log 2 x - 1" "1 \<le> log 2 x"
    by (simp_all add: log_divide le_log_iff)
  then have "\<lfloor>log 2 (x / 2)\<rfloor> = \<lfloor>log 2 x\<rfloor> - 1" "1 \<le> \<lfloor>log 2 x\<rfloor>"
    by (simp_all add: le_floor_iff)
  then have "nat \<bar>\<lfloor>log 2 (x / 2)\<rfloor>\<bar> < nat \<bar>\<lfloor>log 2 x\<rfloor>\<bar>" by linarith
  then show "(x / 2, x) \<in> measure (\<lambda>x. nat \<bar>\<lfloor>log 2 x\<rfloor>\<bar>)" by (simp only: in_measure)
next
  fix x :: real
  assume "\<not> x \<le> 0" "\<not> 2 \<le> x" "x < 1"
  then have "log 2 (2 * x) = log 2 x + 1" "log 2 x < 0"
    by (simp_all add: log_mult)
  then have "\<lfloor>log 2 (2 * x)\<rfloor> = \<lfloor>log 2 x\<rfloor> + 1" "\<lfloor>log 2 x\<rfloor> < 0"
    by (simp_all add: floor_less_iff)
  then have "nat \<bar>\<lfloor>log 2 (2 * x)\<rfloor>\<bar> < nat \<bar>\<lfloor>log 2 x\<rfloor>\<bar>" by linarith
  then show "(2 * x, x) \<in> measure (\<lambda>x. nat \<bar>\<lfloor>log 2 x\<rfloor>\<bar>)" by (simp only: in_measure)
qed

declare binary_exponent.simps [simp del]

text \<open>
  The exponent of the unit in the last place of \<open>x\<close>: with a significand of 53 bits it is
  52 below the exponent of \<open>x\<close>, and it is \<open>-1074\<close> for the subnormal numbers.
\<close>

definition min_exponent :: int where
  "min_exponent = - 1074"

definition ulp_exponent :: "real \<Rightarrow> int" where
  "ulp_exponent x = max (binary_exponent \<bar>x\<bar> - 52) min_exponent"

text \<open>Rounding to the nearest Number, a tie going to the even significand.\<close>

definition binary64 :: "real \<Rightarrow> real" where
  "binary64 x = (if x = 0 then 0
     else of_int (rne (x / 2 powi ulp_exponent x)) * 2 powi ulp_exponent x)"

text \<open>The operators \<^verbatim>\<open>+\<close>, \<^verbatim>\<open>-\<close> and \<^verbatim>\<open>*\<close> on Numbers.\<close>

definition add64 :: "real \<Rightarrow> real \<Rightarrow> real" where
  "add64 x y = binary64 (x + y)"

definition sub64 :: "real \<Rightarrow> real \<Rightarrow> real" where
  "sub64 x y = binary64 (x - y)"

definition mul64 :: "real \<Rightarrow> real \<Rightarrow> real" where
  "mul64 x y = binary64 (x * y)"

text \<open>
  \<^verbatim>\<open>Math.trunc\<close>: the integer part, rounding towards zero. It is exact, as are
  \<^verbatim>\<open>Math.floor\<close>, \<^verbatim>\<open>Math.ceil\<close>, \<^verbatim>\<open>Math.round\<close>, \<^verbatim>\<open>Math.min\<close>,
  \<^verbatim>\<open>Math.max\<close> and the unary minus.
\<close>

definition Math_trunc :: "real \<Rightarrow> int" where
  "Math_trunc x = (if 0 \<le> x then \<lfloor>x\<rfloor> else \<lceil>x\<rceil>)"

text \<open>\<^verbatim>\<open>Math.round\<close>: the nearest integer, a tie going up.\<close>

definition Math_round :: "real \<Rightarrow> int" where
  "Math_round x = \<lfloor>x + 1 / 2\<rfloor>"

text \<open>
  \<^verbatim>\<open>ToInt32\<close>, which every bitwise operator applies to its operands: truncate, then
  reduce modulo \<open>2 ^ 32\<close>. The result is kept as a word; \<^const>\<open>sint\<close> reads the signed
  number that JavaScript sees.
\<close>

definition ToInt32 :: "real \<Rightarrow> 32 word" where
  "ToInt32 x = word_of_int (Math_trunc x)"

section \<open>The \<^verbatim>\<open>P5Grain\<close> object\<close>

text \<open>
  \<^verbatim>\<open>#randomMode\<close> is \<open>0\<close> (float) or \<open>1\<close> (int), and \<^verbatim>\<open>#randomMinMax\<close> is
  the generator of that mode; \<^verbatim>\<open>#prepareRandomMode\<close> sets the two together, so one
  field stands for both.
\<close>

datatype randomMode = RandomFloat | RandomInt

text \<open>
  A host surface (the canvas of the global sketch, a \<^verbatim>\<open>p5\<close> instance, a
  \<^verbatim>\<open>p5.Graphics\<close> or a \<^verbatim>\<open>p5.Image\<close>): its \<^verbatim>\<open>width\<close>, \<^verbatim>\<open>height\<close>,
  \<^verbatim>\<open>pixelDensity()\<close> and its pixel store viewed as 32-bit words
  (\<^verbatim>\<open>new Uint32Array(pixels.buffer)\<close>).
\<close>

record surface =
  width :: int
  height :: int
  pixelDensity :: int
  pixels :: "32 word list"

text \<open>
  The private fields of the class, as they are once \<^verbatim>\<open>setup\<close> has run. The field
  \<open>random\<close> is the configured source \<^verbatim>\<open>#random\<close>: \<open>random s n\<close> is the value its
  call number \<open>n\<close> returns; the number of calls made so far is threaded through the
  functions that draw. The buffer fields \<^verbatim>\<open>#pixels\<close>, \<^verbatim>\<open>#pixelsCount\<close> and
  \<^verbatim>\<open>#context...\<close> are written by \<^verbatim>\<open>#loadPixels\<close>.
\<close>

record P5Grain =
  instance_p5 :: "surface option"
  random :: "nat \<Rightarrow> real"
  randomMode :: randomMode
  pixels_buf :: "32 word list"
  pixelsCount :: int
  contextWidth :: int
  contextHeight :: int
  contextDensity :: int
  textureAnimate_frameCount :: int
  textureOverlay_frameCount :: int
  textureOverlay_tX :: int
  textureOverlay_tY :: int

subsection \<open>Random provider\<close>

definition prepareRandomMode :: "string \<Rightarrow> P5Grain \<Rightarrow> P5Grain" where
  "prepareRandomMode mode s =
     (if mode = ''int'' then s\<lparr>randomMode := RandomInt\<rparr>
      else if mode = ''float'' then s\<lparr>randomMode := RandomFloat\<rparr>
      else s)"

definition prepareRandomBounds :: "P5Grain \<Rightarrow> real \<Rightarrow> real \<Rightarrow> real \<times> real" where
  "prepareRandomBounds s mn mx =
     (if randomMode s = RandomInt then (of_int \<lceil>mn\<rceil>, of_int \<lfloor>mx\<rfloor>)
      else (mn, mx))"

text \<open>
  Each generator calls \<^verbatim>\<open>#random()\<close> once: it reads draw \<open>k\<close> and returns \<open>Suc k\<close>.
  \<^verbatim>\<open>#randomInt\<close> is \<^verbatim>\<open>Math.floor(this.#random() * (max - min + 1) + min)\<close> and
  \<^verbatim>\<open>#randomFloat\<close> is \<^verbatim>\<open>this.#random() * (max - min) + min\<close>.
\<close>

definition randomInt :: "P5Grain \<Rightarrow> real \<Rightarrow> real \<Rightarrow> nat \<Rightarrow> real \<times> nat" where
  "randomInt s mn mx k =
     (of_int \<lfloor>add64 (mul64 (random s k) (add64 (sub64 mx mn) 1)) mn\<rfloor>, Suc k)"

definition randomFloat :: "P5Grain \<Rightarrow> real \<Rightarrow> real \<Rightarrow> nat \<Rightarrow> real \<times> nat" where
  "randomFloat s mn mx k = (add64 (mul64 (random s k) (sub64 mx mn)) mn, Suc k)"

definition randomMinMax :: "P5Grain \<Rightarrow> real \<Rightarrow> real \<Rightarrow> nat \<Rightarrow> real \<times> nat" where
  "randomMinMax s mn mx k =
     (case randomMode s of
        RandomInt \<Rightarrow> randomInt s mn mx k
      | RandomFloat \<Rightarrow> randomFloat s mn mx k)"

subsection \<open>Acquiring and committing the pixel buffer\<close>

text \<open>
  The object a host call is made on: the functions of the global sketch, the configured
  \<^verbatim>\<open>p5\<close> instance, or the argument \<^verbatim>\<open>pg\<close>.
\<close>

datatype recv = Global | Instance | Pg

text \<open>
  The calls the pixel functions make to the host, in the order they are made. A call of
  the user's callback is recorded with its two arguments.
\<close>

datatype hostCall = LoadPixels recv | UpdatePixels recv | Callback int int

text \<open>
  The chain \<^verbatim>\<open>if (pg) ... else if (this.#instance) ... else ...\<close> shared by
  \<^verbatim>\<open>#loadPixels\<close>, \<^verbatim>\<open>#updatePixels\<close> and \<^verbatim>\<open>tinkerPixels\<close>; \<open>glob\<close> is the
  canvas of the global sketch.
\<close>

definition target :: "P5Grain \<Rightarrow> surface option \<Rightarrow> surface \<Rightarrow> recv \<times> surface" where
  "target s pg glob =
     (case pg of
        Some g \<Rightarrow> (Pg, g)
      | None \<Rightarrow> (case instance_p5 s of Some i \<Rightarrow> (Instance, i) | None \<Rightarrow> (Global, glob)))"

definition loadPixels :: "P5Grain \<Rightarrow> surface option \<Rightarrow> surface \<Rightarrow> P5Grain \<times> hostCall list" where
  "loadPixels s pg glob =
     (let (r, sf) = target s pg glob
      in (s\<lparr>pixels_buf := pixels sf,
            contextWidth := width sf,
            contextHeight := height sf,
            contextDensity := pixelDensity sf,
            pixelsCount := width sf * height sf\<rparr>,
          [LoadPixels r]))"

definition updatePixels :: "P5Grain \<Rightarrow> surface option \<Rightarrow> surface \<Rightarrow> hostCall list" where
  "updatePixels s pg glob = [UpdatePixels (fst (target s pg glob))]"

subsection \<open>Grain\<close>

text \<open>
  The result of a bitwise operator is a signed 32-bit integer; \<open>num\<close> is that result as
  a Number.
\<close>

definition num :: "32 word \<Rightarrow> real" where
  "num w = real_of_int (sint w)"

text \<open>
  The body of the loop of \<^verbatim>\<open>applyMonochromaticGrain\<close> on the pixel \<open>p\<close>: one call of
  \<^verbatim>\<open>#randomMinMax\<close>, the four channels, the clamps, the new word. \<^verbatim>\<open>>>\<close> is the
  sign-propagating shift.
\<close>

definition monochromaticPixel ::
  "P5Grain \<Rightarrow> real \<Rightarrow> real \<Rightarrow> bool \<Rightarrow> 32 word \<Rightarrow> nat \<Rightarrow> 32 word \<times> nat" where
  "monochromaticPixel s mn mx shouldUpdateAlpha p k =
     (let (offset, k1) = randomMinMax s mn mx k;
          r = num (p AND 0xff);
          g = num (signed_drop_bit 8 p AND 0xff);
          b = num (signed_drop_bit 16 p AND 0xff);
          a = num (signed_drop_bit 24 p AND 0xff);
          r = max 0 (min 255 (add64 r offset));
          g = max 0 (min 255 (add64 g offset));
          b = max 0 (min 255 (add64 b offset));
          a = (if shouldUpdateAlpha then max 0 (min 255 (add64 a offset)) else a)
      in (push_bit 24 (ToInt32 a) OR push_bit 16 (ToInt32 b) OR push_bit 8 (ToInt32 g)
            OR ToInt32 r, k1))"

fun monochromaticLoop ::
  "P5Grain \<Rightarrow> real \<Rightarrow> real \<Rightarrow> bool \<Rightarrow> 32 word list \<Rightarrow> nat \<Rightarrow> 32 word list \<times> nat" where
  "monochromaticLoop s mn mx shouldUpdateAlpha [] k = ([], k)"
| "monochromaticLoop s mn mx shouldUpdateAlpha (p # ps) k =
     (let (p', k1) = monochromaticPixel s mn mx shouldUpdateAlpha p k;
          (ps', k2) = monochromaticLoop s mn mx shouldUpdateAlpha ps k1
      in (p' # ps', k2))"

text \<open>
  \<^verbatim>\<open>applyMonochromaticGrain(amount, shouldUpdateAlpha, pg)\<close>. An omitted
  \<^verbatim>\<open>shouldUpdateAlpha\<close> is \<open>None\<close>. The result is the object, the surface written to
  (the one \<^const>\<open>target\<close> names), the number of draws made and the host calls.
\<close>

definition applyMonochromaticGrain ::
  "P5Grain \<Rightarrow> real \<Rightarrow> bool option \<Rightarrow> surface option \<Rightarrow> surface \<Rightarrow> nat
     \<Rightarrow> P5Grain \<times> surface \<times> nat \<times> hostCall list" where
  "applyMonochromaticGrain s amount shouldUpdateAlpha pg glob k =
     (let shouldUpdateAlpha = (case shouldUpdateAlpha of Some v \<Rightarrow> v | None \<Rightarrow> False);
          (s1, loaded) = loadPixels s pg glob;
          (mn, mx) = prepareRandomBounds s1 (- amount) amount;
          (px, k1) = monochromaticLoop s1 mn mx shouldUpdateAlpha (pixels_buf s1) k
      in (s1\<lparr>pixels_buf := px\<rparr>,
          (snd (target s pg glob))\<lparr>pixels := px\<rparr>,
          k1,
          loaded @ updatePixels s1 pg glob))"

text \<open>
  The body of the loop of \<^verbatim>\<open>applyChromaticGrain\<close>: the channels are read first,
  then \<^verbatim>\<open>#randomMinMax\<close> is called once in each clamp, in the order R, G, B and,
  when the alpha channel is updated, A.
\<close>

definition chromaticPixel ::
  "P5Grain \<Rightarrow> real \<Rightarrow> real \<Rightarrow> bool \<Rightarrow> 32 word \<Rightarrow> nat \<Rightarrow> 32 word \<times> nat" where
  "chromaticPixel s mn mx shouldUpdateAlpha p k =
     (let r = num (p AND 0xff);
          g = num (signed_drop_bit 8 p AND 0xff);
          b = num (signed_drop_bit 16 p AND 0xff);
          a = num (signed_drop_bit 24 p AND 0xff);
          (o1, k1) = randomMinMax s mn mx k;
          r = max 0 (min 255 (add64 r o1));
          (o2, k2) = randomMinMax s mn mx k1;
          g = max 0 (min 255 (add64 g o2));
          (o3, k3) = randomMinMax s mn mx k2;
          b = max 0 (min 255 (add64 b o3));
          (a, k4) = (if shouldUpdateAlpha
                     then (let (o4, k4) = randomMinMax s mn mx k3
                           in (max 0 (min 255 (add64 a o4)), k4))
                     else (a, k3))
      in (push_bit 24 (ToInt32 a) OR push_bit 16 (ToInt32 b) OR push_bit 8 (ToInt32 g)
            OR ToInt32 r, k4))"

fun chromaticLoop ::
  "P5Grain \<Rightarrow> real \<Rightarrow> real \<Rightarrow> bool \<Rightarrow> 32 word list \<Rightarrow> nat \<Rightarrow> 32 word list \<times> nat" where
  "chromaticLoop s mn mx shouldUpdateAlpha [] k = ([], k)"
| "chromaticLoop s mn mx shouldUpdateAlpha (p # ps) k =
     (let (p', k1) = chromaticPixel s mn mx shouldUpdateAlpha p k;
          (ps', k2) = chromaticLoop s mn mx shouldUpdateAlpha ps k1
      in (p' # ps', k2))"

definition applyChromaticGrain ::
  "P5Grain \<Rightarrow> real \<Rightarrow> bool option \<Rightarrow> surface option \<Rightarrow> surface \<Rightarrow> nat
     \<Rightarrow> P5Grain \<times> surface \<times> nat \<times> hostCall list" where
  "applyChromaticGrain s amount shouldUpdateAlpha pg glob k =
     (let shouldUpdateAlpha = (case shouldUpdateAlpha of Some v \<Rightarrow> v | None \<Rightarrow> False);
          (s1, loaded) = loadPixels s pg glob;
          (mn, mx) = prepareRandomBounds s1 (- amount) amount;
          (px, k1) = chromaticLoop s1 mn mx shouldUpdateAlpha (pixels_buf s1) k
      in (s1\<lparr>pixels_buf := px\<rparr>,
          (snd (target s pg glob))\<lparr>pixels := px\<rparr>,
          k1,
          loaded @ updatePixels s1 pg glob))"

subsection \<open>Iterating over the pixels\<close>

text \<open>
  The loop \<^verbatim>\<open>for (let i = 0; i < total; i += channels) callback(i, total)\<close> of
  \<^verbatim>\<open>tinkerPixels\<close>, with \<^verbatim>\<open>channels = 4\<close>. What the callback does is the
  caller's; the model records that it is called, and with which arguments.
\<close>

function tinkerPixels_loop :: "int \<Rightarrow> int \<Rightarrow> hostCall list" where
  "tinkerPixels_loop i tot =
     (if i < tot then Callback i tot # tinkerPixels_loop (i + 4) tot else [])"
  by pat_completeness auto
termination
  by (relation "measure (\<lambda>(i, tot). nat (tot - i))") auto

declare tinkerPixels_loop.simps [simp del]

text \<open>
  \<^verbatim>\<open>tinkerPixels(callback, shouldUpdate, pg)\<close>. An omitted \<^verbatim>\<open>shouldUpdate\<close> is
  \<open>None\<close>; \<^verbatim>\<open>shouldUpdate !== false\<close> makes it true.
\<close>

definition tinkerPixels ::
  "P5Grain \<Rightarrow> bool option \<Rightarrow> surface option \<Rightarrow> surface \<Rightarrow> hostCall list" where
  "tinkerPixels s shouldUpdate pg glob =
     (let shouldUpdate = (shouldUpdate \<noteq> Some False);
          (r, sf) = target s pg glob;
          density = pixelDensity sf;
          tot = 4 * (width sf * density) * (height sf * density)
      in [LoadPixels r] @ tinkerPixels_loop 0 tot
           @ (if shouldUpdate then updatePixels s pg glob else []))"

definition loopPixels :: "P5Grain \<Rightarrow> surface option \<Rightarrow> surface \<Rightarrow> hostCall list" where
  "loopPixels s pg glob = tinkerPixels s (Some False) pg glob"

subsection \<open>Texture overlay\<close>

datatype blendMode =
  BLEND | DARKEST | LIGHTEST | DIFFERENCE | MULTIPLY | EXCLUSION | SCREEN | REPLACE
  | OVERLAY | HARD_LIGHT | SOFT_LIGHT | DODGE | BURN | ADD | NORMAL

text \<open>The drawing primitives \<^verbatim>\<open>textureOverlay\<close> calls, with the object called.\<close>

datatype prim =
  BlendMode recv blendMode
  | Push recv
  | Pop recv
  | Scale recv real real
  | Image recv real real real real
  | Reset recv

text \<open>A primitive of the host that throws; the exception reaches the caller.\<close>

datatype error = HostError prim

text \<open>
  The \<^verbatim>\<open>config\<close> object. An omitted property is \<open>None\<close>, an omitted \<^verbatim>\<open>config\<close> is
  the record of omitted properties. \<^verbatim>\<open>animate\<close> is \<open>None\<close> when it is omitted or
  \<^verbatim>\<open>false\<close>, and \<^verbatim>\<open>animate: true\<close> is the animation object with both properties
  omitted.
\<close>

record animateConfig =
  animate_atFrame :: "real option"
  animate_amount :: "real option"

record overlayConfig =
  config_width :: "real option"
  config_height :: "real option"
  config_mode :: "blendMode option"
  config_reflect :: bool
  config_animate :: "animateConfig option"

text \<open>
  The argument \<^verbatim>\<open>pg\<close>: omitted, a \<^verbatim>\<open>p5.Graphics\<close>, or some other object (for which
  \<^verbatim>\<open>pg instanceof p5.Graphics\<close> is false and \<^verbatim>\<open>if (pg)\<close> is taken).
\<close>

datatype overlayTarget = NoPg | GraphicsPg surface | OtherPg

definition isGraphicsBuffer :: "overlayTarget \<Rightarrow> bool" where
  "isGraphicsBuffer pg = (case pg of GraphicsPg g \<Rightarrow> True | _ \<Rightarrow> False)"

definition overlay_width :: "P5Grain \<Rightarrow> overlayTarget \<Rightarrow> surface \<Rightarrow> int" where
  "overlay_width s pg glob =
     (case pg of
        GraphicsPg g \<Rightarrow> width g
      | _ \<Rightarrow> (case instance_p5 s of Some i \<Rightarrow> width i | None \<Rightarrow> width glob))"

definition overlay_height :: "P5Grain \<Rightarrow> overlayTarget \<Rightarrow> surface \<Rightarrow> int" where
  "overlay_height s pg glob =
     (case pg of
        GraphicsPg g \<Rightarrow> height g
      | _ \<Rightarrow> (case instance_p5 s of Some i \<Rightarrow> height i | None \<Rightarrow> height glob))"

definition overlay_mode :: "overlayConfig \<Rightarrow> blendMode" where
  "overlay_mode config = (case config_mode config of Some m \<Rightarrow> m | None \<Rightarrow> MULTIPLY)"

text \<open>\<^verbatim>\<open>_animateAtFrame\<close>: a property that is omitted or \<open>0\<close> is falsy.\<close>

definition animateAtFrame :: "overlayConfig \<Rightarrow> int" where
  "animateAtFrame config =
     (case config_animate config of
        Some a \<Rightarrow> (case animate_atFrame a of
                      Some f \<Rightarrow> if f \<noteq> 0 then Math_round f else 2
                    | None \<Rightarrow> 2)
      | None \<Rightarrow> 2)"

definition animateAmount :: "overlayConfig \<Rightarrow> int \<Rightarrow> int \<Rightarrow> int" where
  "animateAmount config w h =
     (case config_animate config of
        Some a \<Rightarrow> (case animate_amount a of
                      Some m \<Rightarrow> if m \<noteq> 0 then Math_round m else min w h
                    | None \<Rightarrow> min w h)
      | None \<Rightarrow> min w h)"

definition overlay_tW :: "overlayConfig \<Rightarrow> surface \<Rightarrow> real" where
  "overlay_tW config textureImage =
     (case config_width config of Some w \<Rightarrow> w | None \<Rightarrow> of_int (width textureImage))"

definition overlay_tH :: "overlayConfig \<Rightarrow> surface \<Rightarrow> real" where
  "overlay_tH config textureImage =
     (case config_height config of Some h \<Rightarrow> h | None \<Rightarrow> of_int (height textureImage))"

text \<open>
  The block \<^verbatim>\<open>if (_animate) { ... }\<close>: the frame counter, and at the interval two
  draws of \<^verbatim>\<open>#random\<close>, the new offsets and the counter back at \<open>0\<close>.
\<close>

definition overlayAnimate :: "overlayConfig \<Rightarrow> int \<Rightarrow> int \<Rightarrow> P5Grain \<Rightarrow> nat \<Rightarrow> P5Grain \<times> nat" where
  "overlayAnimate config w h s k =
     (case config_animate config of
        None \<Rightarrow> (s, k)
      | Some a \<Rightarrow>
          (let s1 = s\<lparr>textureOverlay_frameCount := textureOverlay_frameCount s + 1\<rparr>
           in if textureOverlay_frameCount s1 \<ge> animateAtFrame config
              then (let tX_rand = mul64 (random s1 k) (of_int (animateAmount config w h));
                        tY_rand = mul64 (random s1 (Suc k)) (of_int (animateAmount config w h))
                    in (s1\<lparr>textureOverlay_tX := - Math_trunc tX_rand,
                           textureOverlay_tY := - Math_trunc tY_rand,
                           textureOverlay_frameCount := 0\<rparr>,
                        Suc (Suc k)))
              else (s1, k)))"

text \<open>
  What stays fixed while one call tiles: the host's primitives that throw, the object
  drawn on, \<^verbatim>\<open>_reflect\<close>, \<^verbatim>\<open>_width\<close>, \<^verbatim>\<open>_height\<close>, \<^verbatim>\<open>tW\<close>, \<^verbatim>\<open>tH\<close> and
  \<^verbatim>\<open>this.#textureOverlay_tX\<close>.
\<close>

record tiling =
  raises :: "prim \<Rightarrow> bool"
  draw_on :: recv
  reflect :: bool
  target_width :: real
  target_height :: real
  tile_width :: real
  tile_height :: real
  start_tX :: real

text \<open>
  Host calls made in sequence, appended to the calls already made; the first one that
  throws ends the sequence.
\<close>

fun perform :: "(prim \<Rightarrow> bool) \<Rightarrow> prim list \<Rightarrow> prim list \<Rightarrow> error option \<times> prim list" where
  "perform rs [] tr = (None, tr)"
| "perform rs (p # ps) tr =
     (if rs p then (Some (HostError p), tr) else perform rs ps (tr @ [p]))"

text \<open>The primitives of one tile: the body of the inner loop up to \<^verbatim>\<open>tX += tW\<close>.\<close>

definition drawTile :: "tiling \<Rightarrow> real \<Rightarrow> real \<Rightarrow> bool \<Rightarrow> bool \<Rightarrow> prim list" where
  "drawTile c tX tY tRowFirst tColFirst =
     (let r = draw_on c; tW = tile_width c; tH = tile_height c
      in if reflect c
         then [Push r]
              @ (if tRowFirst
                 then (if tColFirst then [Image r tX tY tW tH]
                       else [Scale r (- 1) 1, Image r (- tX) tY (- tW) tH])
                 else (if tColFirst then [Scale r 1 (- 1), Image r tX (- tY) tW (- tH)]
                       else [Scale r (- 1) (- 1), Image r (- tX) (- tY) (- tW) (- tH)]))
              @ [Pop r]
         else [Image r tX tY tW tH])"

text \<open>
  The inner loop \<^verbatim>\<open>while (tX < _width)\<close>, with \<^verbatim>\<open>tX += tW\<close> and \<^verbatim>\<open>tY += tH\<close>
  rounded as every sum of Numbers is. It ends at its \<^verbatim>\<open>break\<close>, with the cursor on
  the next row, or at its head; it returns \<open>tX\<close>, \<open>tY\<close> and \<open>tColFirst\<close>. A call that
  never returns is \<open>None\<close>.
\<close>

partial_function (option) textureOverlay_columns ::
  "tiling \<Rightarrow> real \<Rightarrow> real \<Rightarrow> bool \<Rightarrow> bool \<Rightarrow> prim list
     \<Rightarrow> ((error + real \<times> real \<times> bool) \<times> prim list) option" where
  "textureOverlay_columns c tX tY tRowFirst tColFirst tr =
     (if tX < target_width c
      then (case perform (raises c) (drawTile c tX tY tRowFirst tColFirst) tr of
              (Some e, tr1) \<Rightarrow> Some (Inl e, tr1)
            | (None, tr1) \<Rightarrow>
                (if add64 tX (tile_width c) \<ge> target_width c
                 then Some (Inr (start_tX c, add64 tY (tile_height c), True), tr1)
                 else textureOverlay_columns c (add64 tX (tile_width c)) tY tRowFirst
                        (\<not> tColFirst) tr1))
      else Some (Inr (tX, tY, tColFirst), tr))"

declare textureOverlay_columns.simps [code]

text \<open>The outer loop \<^verbatim>\<open>while (tY < _height)\<close>.\<close>

partial_function (option) textureOverlay_rows ::
  "tiling \<Rightarrow> real \<Rightarrow> real \<Rightarrow> bool \<Rightarrow> bool \<Rightarrow> prim list
     \<Rightarrow> (error option \<times> prim list) option" where
  "textureOverlay_rows c tX tY tRowFirst tColFirst tr =
     (if tY < target_height c
      then Option.bind (textureOverlay_columns c tX tY tRowFirst tColFirst tr)
             (\<lambda>(res, tr1).
                case res of
                  Inl e \<Rightarrow> Some (Some e, tr1)
                | Inr (tX1, tY1, tColFirst1) \<Rightarrow>
                    textureOverlay_rows c tX1 tY1 (\<not> tRowFirst) tColFirst1 tr1)
      else Some (None, tr))"

declare textureOverlay_rows.simps [code]

text \<open>
  \<^verbatim>\<open>textureOverlay(textureImage, config, pg)\<close> on a host whose primitives \<open>rs\<close>
  throw. The result is the object, the number of draws made, the exception if one was
  thrown, and the primitives that returned; \<open>None\<close> when the call does not return.
\<close>

definition overlay_tiling ::
  "(prim \<Rightarrow> bool) \<Rightarrow> surface \<Rightarrow> overlayConfig \<Rightarrow> overlayTarget \<Rightarrow> int \<Rightarrow> int \<Rightarrow> P5Grain
     \<Rightarrow> tiling" where
  "overlay_tiling rs textureImage config pg w h s1 =
     \<lparr>raises = rs,
      draw_on = (if \<not> isGraphicsBuffer pg
                 then (if instance_p5 s1 \<noteq> None then Instance else Global)
                 else Pg),
      reflect = config_reflect config,
      target_width = of_int w,
      target_height = of_int h,
      tile_width = overlay_tW config textureImage,
      tile_height = overlay_tH config textureImage,
      start_tX = of_int (textureOverlay_tX s1)\<rparr>"

definition textureOverlay ::
  "(prim \<Rightarrow> bool) \<Rightarrow> surface \<Rightarrow> surface \<Rightarrow> overlayConfig \<Rightarrow> overlayTarget \<Rightarrow> P5Grain \<Rightarrow> nat
     \<Rightarrow> (P5Grain \<times> nat \<times> error option \<times> prim list) option" where
  "textureOverlay rs glob textureImage config pg s k =
     (let w = overlay_width s pg glob;
          h = overlay_height s pg glob;
          (s1, k1) = overlayAnimate config w h s k;
          blend_on = (if pg \<noteq> NoPg then Pg
                      else if instance_p5 s1 \<noteq> None then Instance else Global);
          c = overlay_tiling rs textureImage config pg w h s1
      in case perform rs [BlendMode blend_on (overlay_mode config)] [] of
           (Some e, tr) \<Rightarrow> Some (s1, k1, Some e, tr)
         | (None, tr) \<Rightarrow>
             Option.bind
               (textureOverlay_rows c (of_int (textureOverlay_tX s1))
                  (of_int (textureOverlay_tY s1)) True True tr)
               (\<lambda>(res, tr1).
                  case res of
                    Some e \<Rightarrow> Some (s1, k1, Some e, tr1)
                  | None \<Rightarrow>
                      (case perform rs
                              (BlendMode blend_on BLEND
                                 # (if isGraphicsBuffer pg then [Reset Pg] else [])) tr1 of
                         (e, tr2) \<Rightarrow> Some (s1, k1, e, tr2))))"

text \<open>
  The object after \<^verbatim>\<open>new P5Grain()\<close> and a \<^verbatim>\<open>setup\<close> that leaves it with the source
  \<open>rnd\<close> and no instance: the constructor selects the float mode and the counters and
  offsets start at \<open>0\<close>.
\<close>

definition P5Grain_new :: "(nat \<Rightarrow> real) \<Rightarrow> P5Grain" where
  "P5Grain_new rnd =
     \<lparr>instance_p5 = None, random = rnd, randomMode = RandomFloat, pixels_buf = [],
      pixelsCount = 0, contextWidth = 0, contextHeight = 0, contextDensity = 0,
      textureAnimate_frameCount = 0, textureOverlay_frameCount = 0,
      textureOverlay_tX = 0, textureOverlay_tY = 0\<rparr>"

text \<open>An omitted \<^verbatim>\<open>config\<close>, and \<^verbatim>\<open>{ animate: true }\<close>.\<close>

definition default_config :: overlayConfig where
  "default_config =
     \<lparr>config_width = None, config_height = None, config_mode = None,
      config_reflect = False, config_animate = None\<rparr>"

definition animate_config :: overlayConfig where
  "animate_config =
     default_config\<lparr>config_animate := Some \<lparr>animate_atFrame = None, animate_amount = None\<rparr>\<rparr>"

text \<open>A host none of whose primitives throws, and one whose \<^verbatim>\<open>image\<close> throws.\<close>

definition no_raise :: "prim \<Rightarrow> bool" where
  "no_raise p = False"

fun raise_on_image :: "prim \<Rightarrow> bool" where
  "raise_on_image (Image r x y w h) = True"
| "raise_on_image p = False"

text \<open>A source that returns \<open>v\<close> at every call.\<close>

definition constant_source :: "real \<Rightarrow> nat \<Rightarrow> real" where
  "constant_source v n = v"

text \<open>The Number that the literal \<^verbatim>\<open>0.7\<close> denotes: the one nearest to \<open>7 / 10\<close>.\<close>

definition seven_tenths :: real where
  "seven_tenths = 3152519739159347 / 4503599627370496"

text \<open>A surface of the given size and density with every pixel \<open>0\<close>.\<close>

definition blank_surface :: "int \<Rightarrow> int \<Rightarrow> int \<Rightarrow> surface" where
  "blank_surface w h d =
     \<lparr>width = w, height = h, pixelDensity = d, pixels = replicate (nat (w * h * d * d)) 0\<rparr>"

text \<open>A surface of one row holding the given pixels.\<close>

definition row_surface :: "32 word list \<Rightarrow> surface" where
  "row_surface ps = \<lparr>width = int (length ps), height = 1, pixelDensity = 1, pixels = ps\<rparr>"

text \<open>A source that returns the values of the list in turn, and \<open>0\<close> after them.\<close>

definition list_source :: "real list \<Rightarrow> nat \<Rightarrow> real" where
  "list_source vs n = (if n < length vs then vs ! n else 0)"

subsection \<open>Vocabulary of the statements\<close>

text \<open>
  Stated from the specification, not from the code: channel \<open>c\<close> of a packed pixel is
  the byte in bits \<open>8c\<close> to \<open>8c + 7\<close>, so that R, G, B and A are the channels \<open>0\<close>,
  \<open>1\<close>, \<open>2\<close> and \<open>3\<close>.
\<close>

definition channelBits :: "nat \<Rightarrow> 32 word \<Rightarrow> nat" where
  "channelBits c w = (unat w div 2 ^ (8 * c)) mod 256"

text \<open>The arguments of the callback calls among the host calls, in order.\<close>

fun callbacks :: "hostCall list \<Rightarrow> (int \<times> int) list" where
  "callbacks [] = []"
| "callbacks (Callback i t # cs) = (i, t) # callbacks cs"
| "callbacks (c # cs) = callbacks cs"

text \<open>
  A caller making calls of \<^verbatim>\<open>textureOverlay\<close> one after the other on one object, each
  with its texture, \<^verbatim>\<open>config\<close> and \<^verbatim>\<open>pg\<close>, and going on after a call that threw:
  the object and the number of draws after each call. \<open>None\<close> when a call does not
  return.
\<close>

fun overlayCalls ::
  "(prim \<Rightarrow> bool) \<Rightarrow> surface \<Rightarrow> (surface \<times> overlayConfig \<times> overlayTarget) list \<Rightarrow> P5Grain \<Rightarrow> nat
     \<Rightarrow> (P5Grain \<times> nat) list option" where
  "overlayCalls rs glob [] s k = Some []"
| "overlayCalls rs glob ((textureImage, config, pg) # calls) s k =
     (case textureOverlay rs glob textureImage config pg s k of
        None \<Rightarrow> None
      | Some (s1, k1, e, tr) \<Rightarrow>
          map_option ((#) (s1, k1)) (overlayCalls rs glob calls s1 k1))"

text \<open>The tiles drawn among the primitives: position and size of each image drawn, in order.\<close>

fun images :: "prim list \<Rightarrow> (real \<times> real \<times> real \<times> real) list" where
  "images [] = []"
| "images (Image r x y w h # ps) = (x, y, w, h) # images ps"
| "images (p # ps) = images ps"


section \<open>Rounding\<close>

lemma binary_exponent_log:
  "0 < x \<Longrightarrow> binary_exponent x = \<lfloor>log 2 x\<rfloor>"
proof (induction x rule: binary_exponent.induct)
  case (1 x)
  show ?case
  proof (cases "2 \<le> x")
    case True
    then have "binary_exponent (x / 2) = \<lfloor>log 2 (x / 2)\<rfloor>"
      using 1 by simp
    moreover have "log 2 (x / 2) = log 2 x - 1" using 1(3) by (simp add: log_divide)
    ultimately show ?thesis using True 1(3) by (subst binary_exponent.simps) simp
  next
    case False
    show ?thesis
    proof (cases "x < 1")
      case True
      then have "binary_exponent (2 * x) = \<lfloor>log 2 (2 * x)\<rfloor>"
        using 1 False by simp
      moreover have "log 2 (2 * x) = log 2 x + 1" using 1(3) by (simp add: log_mult)
      ultimately show ?thesis using True False 1(3) by (subst binary_exponent.simps) simp
    next
      case f: False
      then have "0 \<le> log 2 x" "log 2 x < 1" using False 1(3) by (simp_all add: log_less_iff)
      then have "\<lfloor>log 2 x\<rfloor> = 0" by (simp add: floor_eq_iff)
      then show ?thesis using f False 1(3) by (subst binary_exponent.simps) simp
    qed
  qed
qed

lemma ulp_exponent_log: "ulp_exponent x = max (\<lfloor>log 2 \<bar>x\<bar>\<rfloor> - 52) min_exponent"
proof (cases "x = 0")
  case True
  then show ?thesis by (simp add: ulp_exponent_def binary_exponent.simps log_def)
next
  case False
  then show ?thesis by (simp add: ulp_exponent_def binary_exponent_log)
qed

lemma rne_of_int [simp]: "rne (of_int n) = n"
  by (simp add: rne_def)

lemma rne_floor_le: "\<lfloor>y\<rfloor> \<le> rne y"
  by (simp add: rne_def Let_def)

lemma rne_le_ceiling: "rne y \<le> \<lfloor>y\<rfloor> + 1"
  by (simp add: rne_def Let_def)

lemma rne_mono: assumes "x \<le> y" shows "rne x \<le> rne y"
proof (cases "\<lfloor>x\<rfloor> = \<lfloor>y\<rfloor>")
  case True
  then show ?thesis using assms by (auto simp add: rne_def Let_def)
next
  case False
  then have "\<lfloor>x\<rfloor> + 1 \<le> \<lfloor>y\<rfloor>" using assms floor_mono [of x y] by linarith
  then show ?thesis using rne_le_ceiling [of x] rne_floor_le [of y] by linarith
qed

lemma rne_minus: "rne (- x) = - rne x"
proof (cases "x = of_int \<lfloor>x\<rfloor>")
  case True
  then obtain n where "x = of_int n" ..
  then have "- x = of_int (- n)" by simp
  then show ?thesis using \<open>x = of_int n\<close> by (metis rne_of_int)
next
  case False
  then have c: "\<lfloor>- x\<rfloor> = - \<lfloor>x\<rfloor> - 1"
    by (metis ceiling_altdef ceiling_def add_diff_cancel_right' diff_minus_eq_add minus_diff_eq uminus_add_conv_diff)
  show ?thesis using False unfolding rne_def Let_def c by (auto simp add: field_simps)
qed

lemma floor_log_bounds:
  assumes "0 < x"
  shows "2 powi \<lfloor>log 2 x\<rfloor> \<le> x" "x < 2 powi (\<lfloor>log 2 x\<rfloor> + 1)"
proof -
  have "(2::real) powr \<lfloor>log 2 x\<rfloor> \<le> x \<and> x < 2 powr (\<lfloor>log 2 x\<rfloor> + 1)"
    using floor_log_eq_powr_iff [of x 2 "\<lfloor>log 2 x\<rfloor>"] assms by simp
  then show "2 powi \<lfloor>log 2 x\<rfloor> \<le> x" "x < 2 powi (\<lfloor>log 2 x\<rfloor> + 1)"
    using powr_real_of_int' [of "2::real" "\<lfloor>log 2 x\<rfloor>"] powr_real_of_int' [of "2::real" "\<lfloor>log 2 x\<rfloor> + 1"]
    by simp_all
qed

lemma floor_log_unique:
  assumes "2 powi E \<le> x" "x < 2 powi (E + 1)"
  shows "\<lfloor>log 2 x\<rfloor> = E"
proof -
  have "0 < x" using assms(1) zero_less_power_int [of "2::real" E] by linarith
  moreover have "(2::real) powr E \<le> x \<and> x < 2 powr (E + 1)"
    using assms powr_real_of_int' [of "2::real" E] powr_real_of_int' [of "2::real" "E + 1"] by simp
  ultimately show ?thesis using floor_log_eq_powr_iff [of x 2 E] by simp
qed

lemma ulp_exponent_minus [simp]: "ulp_exponent (- x) = ulp_exponent x"
  by (simp add: ulp_exponent_log)

lemma ulp_exponent_eq:
  assumes "2 powi E \<le> \<bar>x\<bar>" "\<bar>x\<bar> < 2 powi (E + 1)"
  shows "ulp_exponent x = max (E - 52) min_exponent"
  using floor_log_unique [OF assms] by (simp add: ulp_exponent_log)

lemma ulp_exponent_ge: "min_exponent \<le> ulp_exponent x"
  by (simp add: ulp_exponent_log)

lemma binary64_0 [simp]: "binary64 0 = 0"
  by (simp add: binary64_def)

lemma binary64_minus: "binary64 (- x) = - binary64 x"
  using rne_minus [of "x / 2 powi ulp_exponent x"] by (simp add: binary64_def)

lemma binary64_eval:
  assumes "2 powi E \<le> \<bar>x\<bar>" "\<bar>x\<bar> < 2 powi (E + 1)" "e = max (E - 52) min_exponent"
  shows "binary64 x = of_int (rne (x / 2 powi e)) * 2 powi e"
proof -
  have "0 < (2::real) powi E" by simp
  then have "0 < \<bar>x\<bar>" using assms(1) by linarith
  then have "x \<noteq> 0" by simp
  then show ?thesis using ulp_exponent_eq [OF assms(1,2)] assms(3) by (simp add: binary64_def)
qed

lemma binary64_nonneg: "0 \<le> x \<Longrightarrow> 0 \<le> binary64 x"
proof -
  assume "0 \<le> x"
  then have "0 \<le> x / 2 powi ulp_exponent x" by simp
  then have "0 \<le> rne (x / 2 powi ulp_exponent x)" using rne_mono [of 0 "x / 2 powi ulp_exponent x"] rne_of_int [of 0] by simp
  then show ?thesis by (simp add: binary64_def)
qed


lemma power_int_as_int:
  assumes "0 \<le> j"
  shows "(2::real) powi j = of_int (2 ^ nat j)"
  using assms by (simp add: power_int_def)

lemma binary64_le_grid:
  assumes "x \<le> of_int n * 2 powi j" "ulp_exponent x \<le> j"
  shows "binary64 x \<le> of_int n * 2 powi j"
proof (cases "x = 0")
  case True
  then show ?thesis using assms(1) by simp
next
  case False
  define e where "e = ulp_exponent x"
  have p: "0 < (2::real) powi e" by simp
  have "(2::real) powi j = 2 powi (j - e) * 2 powi e"
    by (simp add: power_int_add [symmetric])
  also have "(2::real) powi (j - e) = of_int (2 ^ nat (j - e))"
    using assms(2) by (intro power_int_as_int) (simp add: e_def)
  finally have g: "real_of_int n * 2 powi j = of_int (n * 2 ^ nat (j - e)) * 2 powi e" by simp
  have "x \<le> of_int (n * 2 ^ nat (j - e)) * 2 powi e"
    using assms(1) unfolding g .
  then have "x / 2 powi e \<le> of_int (n * 2 ^ nat (j - e))"
    using p by (simp only: pos_divide_le_eq)
  then have "rne (x / 2 powi e) \<le> n * 2 ^ nat (j - e)"
    using rne_mono rne_of_int by metis
  then have "real_of_int (rne (x / 2 powi e)) * 2 powi e \<le> real_of_int (n * 2 ^ nat (j - e)) * 2 powi e"
    using p by (simp only: mult_le_cancel_right_pos of_int_le_iff)
  moreover have "binary64 x = real_of_int (rne (x / 2 powi e)) * 2 powi e"
    using False by (simp add: binary64_def e_def)
  ultimately show ?thesis unfolding g by simp
qed

lemma binary64_ge_grid:
  assumes "of_int n * 2 powi j \<le> x" "ulp_exponent x \<le> j"
  shows "of_int n * 2 powi j \<le> binary64 x"
proof -
  have "binary64 (- x) \<le> of_int (- n) * 2 powi j"
    using assms by (intro binary64_le_grid) simp_all
  then show ?thesis by (simp add: binary64_minus)
qed

lemma abs_rne_le:
  assumes "\<bar>y\<bar> \<le> of_int n"
  shows "\<bar>rne y\<bar> \<le> n"
proof -
  have "rne y \<le> rne (of_int n)" using assms by (intro rne_mono) linarith
  moreover have "rne (of_int (- n)) \<le> rne y" using assms by (intro rne_mono) simp
  ultimately show ?thesis by (simp del: of_int_minus)
qed

lemma quotient_less:
  assumes "x \<noteq> 0"
  shows "\<bar>x / 2 powi ulp_exponent x\<bar> < 2 ^ 53"
proof -
  define E where "E = \<lfloor>log 2 \<bar>x\<bar>\<rfloor>"
  define e where "e = ulp_exponent x"
  have "E - 52 \<le> e" by (simp add: e_def E_def ulp_exponent_log)
  then have "(2::real) powi (E + 1) \<le> 2 powi (53 + e)"
    by (intro power_int_increasing) simp_all
  moreover have "\<bar>x\<bar> < 2 powi (E + 1)"
    using floor_log_bounds(2) [of "\<bar>x\<bar>"] assms by (simp add: E_def)
  ultimately have "\<bar>x\<bar> < 2 powi (53 + e)" by linarith
  also have "(2::real) powi (53 + e) = 2 ^ 53 * 2 powi e"
    by (subst power_int_add) simp_all
  finally have "\<bar>x\<bar> / 2 powi e < 2 ^ 53"
    by (simp add: field_simps)
  then show ?thesis by (simp add: e_def)
qed

lemma power_int_less_exponent:
  assumes "(2::real) powi a < 2 powi b"
  shows "a < b"
proof (rule ccontr)
  assume "\<not> a < b"
  then have "(2::real) powi b \<le> 2 powi a" by (intro power_int_increasing) simp_all
  then show False using assms by simp
qed

lemma ulp_exponent_representable:
  assumes "\<bar>m\<bar> < 2 ^ 53" "min_exponent \<le> i" "m \<noteq> 0"
  shows "ulp_exponent (of_int m * 2 powi i) \<le> i"
proof -
  note False = assms(3)
  define x :: real where "x = of_int m * 2 powi i"
  define E where "E = \<lfloor>log 2 \<bar>x\<bar>\<rfloor>"
  have "x \<noteq> 0" using False by (simp add: x_def)
  then have "2 powi E \<le> \<bar>x\<bar>" using floor_log_bounds(1) [of "\<bar>x\<bar>"] by (simp add: E_def)
  moreover have "\<bar>x\<bar> = of_int \<bar>m\<bar> * 2 powi i" by (simp add: x_def abs_mult)
  moreover have "real_of_int \<bar>m\<bar> < of_int (2 ^ 53)" using assms(1) by (simp only: of_int_less_iff)
  then have "real_of_int \<bar>m\<bar> < 2 ^ 53" by simp
  then have "real_of_int \<bar>m\<bar> * 2 powi i < 2 ^ 53 * 2 powi i" by simp
  moreover have "(2::real) ^ 53 * 2 powi i = 2 powi (53 + i)" by (subst power_int_add) simp_all
  ultimately have "(2::real) powi E < 2 powi (53 + i)" by linarith
  then have "E < 53 + i" by (rule power_int_less_exponent)
  then show ?thesis using assms(2) by (simp add: ulp_exponent_log E_def x_def)
qed

lemma binary64_representable_less:
  assumes "\<bar>m\<bar> < 2 ^ 53" "min_exponent \<le> i"
  shows "binary64 (of_int m * 2 powi i) = of_int m * 2 powi i"
proof (cases "m = 0")
  case True
  then show ?thesis by simp
next
  case False
  have u: "ulp_exponent (of_int m * 2 powi i) \<le> i" using assms False by (rule ulp_exponent_representable)
  have "binary64 (of_int m * 2 powi i) \<le> of_int m * 2 powi i"
    using u by (intro binary64_le_grid) simp_all
  moreover have "of_int m * 2 powi i \<le> binary64 (of_int m * 2 powi i)"
    using u by (intro binary64_ge_grid) simp_all
  ultimately show ?thesis by simp
qed

lemma binary64_representable:
  assumes "\<bar>m\<bar> \<le> 2 ^ 53" "min_exponent \<le> i"
  shows "binary64 (of_int m * 2 powi i) = of_int m * 2 powi i"
proof (cases "\<bar>m\<bar> = 2 ^ 53")
  case False
  then show ?thesis using assms by (intro binary64_representable_less) simp_all
next
  case True
  then have "m = 2 ^ 53 \<or> m = - (2 ^ 53)" by linarith
  then have m: "m = (m div 2) * 2" "\<bar>m div 2\<bar> < 2 ^ 53" by auto
  have "real_of_int m * 2 powi i = of_int (m div 2) * (2 * 2 powi i)"
    using m(1) by (metis of_int_mult of_int_numeral mult.assoc)
  also have "2 * (2::real) powi i = 2 powi (i + 1)" by (simp add: power_int_add)
  finally have e: "real_of_int m * 2 powi i = of_int (m div 2) * 2 powi (i + 1)" .
  show ?thesis unfolding e using m(2) assms(2) by (intro binary64_representable_less) simp_all
qed

lemma binary64_of_int:
  assumes "\<bar>n\<bar> \<le> 2 ^ 53"
  shows "binary64 (of_int n) = of_int n"
  using binary64_representable [of n 0] assms by (simp add: min_exponent_def)

lemma binary64_idem [simp]: "binary64 (binary64 x) = binary64 x"
proof (cases "x = 0")
  case True
  then show ?thesis by simp
next
  case False
  define e where "e = ulp_exponent x"
  define N where "N = rne (x / 2 powi e)"
  have "\<bar>x / 2 powi e\<bar> \<le> of_int (2 ^ 53)"
    using quotient_less [OF False] by (simp add: e_def)
  then have "\<bar>N\<bar> \<le> 2 ^ 53" unfolding N_def by (rule abs_rne_le)
  moreover have "min_exponent \<le> e" unfolding e_def by (rule ulp_exponent_ge)
  ultimately have "binary64 (of_int N * 2 powi e) = of_int N * 2 powi e"
    by (rule binary64_representable)
  moreover have "binary64 x = of_int N * 2 powi e"
    using False by (simp add: binary64_def e_def N_def)
  ultimately show ?thesis by simp
qed

lemma ulp_exponent_mono:
  assumes "0 < x" "x \<le> y"
  shows "ulp_exponent x \<le> ulp_exponent y"
proof -
  have "log 2 x \<le> log 2 y" using assms by simp
  then have "\<lfloor>log 2 x\<rfloor> \<le> \<lfloor>log 2 y\<rfloor>" by (rule floor_mono)
  then show ?thesis using assms by (simp add: ulp_exponent_log)
qed

lemma binary64_mono_pos:
  assumes "0 < x" "x \<le> y"
  shows "binary64 x \<le> binary64 y"
proof (cases "ulp_exponent x = ulp_exponent y")
  case True
  define e where "e = ulp_exponent y"
  have "x / 2 powi e \<le> y / 2 powi e" using assms(2) by (simp add: divide_right_mono)
  then have "rne (x / 2 powi e) \<le> rne (y / 2 powi e)" by (rule rne_mono)
  then have "real_of_int (rne (x / 2 powi e)) * 2 powi e \<le> real_of_int (rne (y / 2 powi e)) * 2 powi e"
    by (simp only: mult_le_cancel_right_pos of_int_le_iff zero_less_power_int zero_less_numeral)
  then show ?thesis using assms True by (simp add: binary64_def e_def)
next
  case False
  define B where "B = \<lfloor>log 2 y\<rfloor>"
  have lt: "ulp_exponent x < ulp_exponent y"
    using False ulp_exponent_mono [OF assms] by simp
  have y: "0 < y" using assms by simp
  have ey: "ulp_exponent y = B - 52"
    using lt ulp_exponent_ge [of x] y by (simp add: ulp_exponent_log B_def max_def split: if_splits)
  have "\<lfloor>log 2 x\<rfloor> - 52 \<le> ulp_exponent x" using assms(1) by (simp add: ulp_exponent_log)
  then have "\<lfloor>log 2 x\<rfloor> + 1 \<le> B" using lt ey by simp
  then have "(2::real) powi (\<lfloor>log 2 x\<rfloor> + 1) \<le> 2 powi B" by (intro power_int_increasing) simp_all
  then have "x \<le> of_int 1 * 2 powi B" using floor_log_bounds(2) [OF assms(1)] by simp
  then have "binary64 x \<le> of_int 1 * 2 powi B" using lt ey by (intro binary64_le_grid) simp_all
  moreover have "of_int 1 * 2 powi B \<le> y" using floor_log_bounds(1) [OF y] by (simp add: B_def)
  then have "of_int 1 * 2 powi B \<le> binary64 y" using ey by (intro binary64_ge_grid) simp_all
  ultimately show ?thesis by linarith
qed

lemma binary64_mono:
  assumes "x \<le> y"
  shows "binary64 x \<le> binary64 y"
proof -
  consider "0 < x" | "x \<le> 0" "0 \<le> y" | "y < 0" by linarith
  then show ?thesis
  proof cases
    case 1
    then show ?thesis using assms by (rule binary64_mono_pos)
  next
    case 2
    then have "binary64 x \<le> 0" using binary64_nonneg [of "- x"] by (simp add: binary64_minus)
    moreover have "0 \<le> binary64 y" using 2 by (intro binary64_nonneg)
    ultimately show ?thesis by simp
  next
    case 3
    then have "binary64 (- y) \<le> binary64 (- x)" using assms by (intro binary64_mono_pos) simp_all
    then show ?thesis by (simp add: binary64_minus)
  qed
qed

lemma powi_neg: "(2::real) powi (- int k) = 1 / 2 ^ k"
  by (simp add: power_int_minus inverse_eq_divide)

lemma binary64_numeral:
  "(numeral n :: int) \<le> 2 ^ 53 \<Longrightarrow> binary64 (numeral n) = numeral n"
  using binary64_of_int [of "numeral n"] by simp

lemma binary64_neg_numeral:
  "(numeral n :: int) \<le> 2 ^ 53 \<Longrightarrow> binary64 (- numeral n) = - numeral n"
  using binary64_of_int [of "- numeral n"] by simp

lemma binary64_1 [simp]: "binary64 1 = 1"
  using binary64_of_int [of 1] by simp

lemma binary64_dyadic:
  assumes "\<bar>m\<bar> \<le> 2 ^ 53" "k \<le> 1074"
  shows "binary64 (of_int m / 2 ^ k) = of_int m / 2 ^ k"
proof -
  have "real_of_int m / 2 ^ k = of_int m * 2 powi (- int k)"
    by (simp add: powi_neg)
  moreover have "binary64 (of_int m * 2 powi (- int k)) = of_int m * 2 powi (- int k)"
    using assms by (intro binary64_representable) (simp_all add: min_exponent_def)
  ultimately show ?thesis by simp
qed



lemma number_below_one:
  assumes "binary64 r = r" "r < 1"
  shows "r \<le> 1 - 1 / 2 ^ 53"
proof (rule ccontr)
  assume "\<not> r \<le> 1 - 1 / 2 ^ 53"
  then have lo: "1 - 1 / 2 ^ 53 < r" by simp
  then have "2 powi (- 1) \<le> \<bar>r\<bar>" by simp
  moreover have "\<bar>r\<bar> < 2 powi (- 1 + 1)" using assms(2) lo by simp
  moreover have "- 53 = max (- 1 - 52) min_exponent" by (simp add: min_exponent_def)
  ultimately have "binary64 r = of_int (rne (r / 2 powi (- 53))) * 2 powi (- 53)"
    by (rule binary64_eval)
  moreover define N where "N = rne (r / 2 powi (- 53))"
  moreover have p: "(2::real) powi (- 53) = 1 / 2 ^ 53"
    using powi_neg [of 53] by simp
  ultimately have "binary64 r = real_of_int N * (1 / 2 ^ 53)" by (simp only:)
  then have r: "r = real_of_int N * (1 / 2 ^ 53)" unfolding assms(1) .
  have "real_of_int N * (1 / 2 ^ 53) < 1" using assms(2) by (subst r [symmetric])
  then have "real_of_int N < of_int (2 ^ 53)" by simp
  then have "N < 2 ^ 53" by (simp only: of_int_less_iff)
  then have "N \<le> 2 ^ 53 - 1" by simp
  then have "real_of_int N \<le> of_int (2 ^ 53 - 1)" by (simp only: of_int_le_iff)
  then have "real_of_int N * (1 / 2 ^ 53) \<le> 1 - 1 / 2 ^ 53" by (simp add: field_simps)
  then have "r \<le> 1 - 1 / 2 ^ 53" by (subst r)
  then show False using lo by simp
qed

lemma rne_below_half:
  assumes "y < of_int n - 1 / 2"
  shows "rne y \<le> n - 1"
proof -
  have "y < of_int n" using assms by simp
  then have f: "\<lfloor>y\<rfloor> \<le> n - 1" by (simp add: floor_less_iff)
  show ?thesis
  proof (cases "\<lfloor>y\<rfloor> = n - 1")
    case True
    then have "y - of_int \<lfloor>y\<rfloor> < 1 / 2" using assms by simp
    then show ?thesis using True by (simp add: rne_def)
  next
    case False
    then have "\<lfloor>y\<rfloor> + 1 \<le> n - 1" using f by simp
    then show ?thesis using rne_le_ceiling [of y] by linarith
  qed
qed

lemma number_mantissa:
  assumes "binary64 d = d" "0 < d"
  shows "\<exists>N. d = of_int N * 2 powi ulp_exponent d \<and> 0 < N"
proof -
  define N where "N = rne (d / 2 powi ulp_exponent d)"
  have "binary64 d = of_int N * 2 powi ulp_exponent d"
    using assms(2) by (simp add: binary64_def N_def)
  then have d: "d = of_int N * 2 powi ulp_exponent d" unfolding assms(1) .
  have "0 < real_of_int N * 2 powi ulp_exponent d" using assms(2) by (subst d [symmetric])
  then have "0 < real_of_int N" by (rule zero_less_mult_pos2) simp
  then have "0 < N" by simp
  with d show ?thesis by blast
qed

lemma ulp_exponent_normal:
  assumes "0 < x" "min_exponent < ulp_exponent x"
  shows "2 powi (ulp_exponent x + 52) \<le> x"
proof -
  have "ulp_exponent x = \<lfloor>log 2 x\<rfloor> - 52"
    using assms by (simp add: ulp_exponent_log max_def split: if_splits)
  then have "ulp_exponent x + 52 = \<lfloor>log 2 x\<rfloor>" by simp
  then show ?thesis using floor_log_bounds(1) [OF assms(1)] by simp
qed

lemma binary64_below:
  assumes n: "binary64 d = d" and pos: "0 < d" and normal: "min_exponent < ulp_exponent d"
  shows "binary64 (d * (1 - 1 / 2 ^ 53)) < d"
proof -
  define e where "e = ulp_exponent d"
  define x where "x = d * (1 - 1 / 2 ^ 53)"
  obtain N where d: "d = of_int N * 2 powi e" and N: "0 < N"
    using number_mantissa [OF n pos] unfolding e_def by blast
  have p: "0 < (2::real) powi e" by simp
  have half: "(2::real) powi (e - 1) = 2 powi e / 2"
    by (simp add: power_int_diff)
  have big: "(2::real) powi (e + 52) = 2 powi e * 2 ^ 52"
    by (subst power_int_add) simp_all
  have lo: "2 powi (e + 52) \<le> d"
    using ulp_exponent_normal [OF pos normal] by (simp only: e_def)
  have x0: "0 < x" using pos by (simp add: x_def)
  have xd: "x \<le> d" using pos by (simp add: x_def mult_le_cancel_left1)
  have le: "ulp_exponent x \<le> e"
    unfolding e_def using x0 xd by (rule ulp_exponent_mono)
  have mid: "x \<le> d - 2 powi e / 2"
  proof -
    have "2 powi e * 2 ^ 52 / 2 ^ 53 \<le> d / 2 ^ 53"
      using lo unfolding big by (simp only: divide_le_cancel) simp
    then have "2 powi e / 2 \<le> d / 2 ^ 53" by simp
    then show ?thesis by (simp add: x_def algebra_simps)
  qed
  show ?thesis
  proof (cases "ulp_exponent x = e")
    case True
    then have "min_exponent < ulp_exponent x" using normal by (simp only: e_def)
    then have "2 powi (e + 52) \<le> x"
      using ulp_exponent_normal [OF x0] True by simp
    moreover have "x < d" using pos by (simp add: x_def)
    ultimately have "2 powi e * 2 ^ 52 < d" unfolding big by simp
    then have "2 powi e * 2 ^ 52 / 2 ^ 53 < d / 2 ^ 53"
      by (simp only: divide_less_cancel) simp
    then have "2 powi e / 2 < d / 2 ^ 53" by simp
    then have "x < d - 2 powi e / 2" by (simp add: x_def algebra_simps)
    then have "x < (of_int N - 1 / 2) * 2 powi e" unfolding d by (simp add: algebra_simps)
    then have "x / 2 powi e < of_int N - 1 / 2" using p by (simp only: pos_divide_less_eq)
    then have "rne (x / 2 powi e) \<le> N - 1" by (rule rne_below_half)
    then have "real_of_int (rne (x / 2 powi e)) \<le> of_int (N - 1)" by (simp only: of_int_le_iff)
    then have "real_of_int (rne (x / 2 powi e)) * 2 powi e \<le> of_int (N - 1) * 2 powi e"
      using p by (simp only: mult_le_cancel_right_pos)
    moreover have "binary64 x = real_of_int (rne (x / 2 powi e)) * 2 powi e"
      using x0 True by (simp add: binary64_def)
    moreover have "real_of_int (N - 1) * 2 powi e < d" unfolding d using p by (simp add: algebra_simps)
    ultimately show ?thesis unfolding x_def by linarith
  next
    case False
    then have u: "ulp_exponent x \<le> e - 1" using le by simp
    have eq: "d - 2 powi e / 2 = of_int (2 * N - 1) * 2 powi (e - 1)"
      unfolding half d by (simp add: algebra_simps)
    then have "x \<le> of_int (2 * N - 1) * 2 powi (e - 1)" using mid by simp
    then have "binary64 x \<le> of_int (2 * N - 1) * 2 powi (e - 1)"
      using u by (rule binary64_le_grid)
    also have "\<dots> = d - 2 powi e / 2" by (simp only: eq)
    also have "\<dots> < d" using p by simp
    finally show ?thesis unfolding x_def .
  qed
qed


lemma mul64_below:
  assumes "binary64 r = r" "0 \<le> r" "r < 1"
    and "binary64 d = d" "0 < d" "min_exponent < ulp_exponent d"
  shows "mul64 r d < d"
proof -
  have "r \<le> 1 - 1 / 2 ^ 53" using assms(1,3) by (rule number_below_one)
  then have "r * d \<le> (1 - 1 / 2 ^ 53) * d" using assms(5) by (simp only: mult_le_cancel_right_pos)
  then have "binary64 (r * d) \<le> binary64 (d * (1 - 1 / 2 ^ 53))"
    by (intro binary64_mono) (simp add: mult.commute)
  also have "\<dots> < d" using assms(4-6) by (rule binary64_below)
  finally show ?thesis by (simp only: mul64_def)
qed


text \<open>
  The rounding on the decimal literals \<^verbatim>\<open>0.1\<close>, \<^verbatim>\<open>0.2\<close> and \<^verbatim>\<open>0.3\<close>: the sum
  \<^verbatim>\<open>0.1 + 0.2\<close> is a tie, goes to the even significand and is not \<^verbatim>\<open>0.3\<close>.
\<close>

lemma binary64_tenth: "binary64 (1 / 10) = 3602879701896397 / 2 ^ 55"
  by (subst binary64_eval [where E = "- 4" and e = "- 56"]) (simp_all add: min_exponent_def rne_def)

lemma binary64_fifth: "binary64 (2 / 10) = 3602879701896397 / 2 ^ 54"
  by (subst binary64_eval [where E = "- 3" and e = "- 55"]) (simp_all add: min_exponent_def rne_def)

lemma binary64_three_tenths: "binary64 (3 / 10) = 5404319552844595 / 2 ^ 54"
  by (subst binary64_eval [where E = "- 2" and e = "- 54"]) (simp_all add: min_exponent_def rne_def)

lemma tenth_plus_fifth:
  "add64 (binary64 (1 / 10)) (binary64 (2 / 10)) = 5404319552844596 / 2 ^ 54"
  "add64 (binary64 (1 / 10)) (binary64 (2 / 10)) \<noteq> binary64 (3 / 10)"
  unfolding binary64_tenth binary64_fifth binary64_three_tenths add64_def
  by (subst binary64_eval [where E = "- 2" and e = "- 54"]; simp add: min_exponent_def rne_def)+

section \<open>The random provider\<close>

lemma randomMinMax_int:
  "randomMode s = RandomInt \<Longrightarrow> randomMinMax s mn mx k = randomInt s mn mx k"
  by (simp add: randomMinMax_def)






lemmas binary64_exact = binary64_0 binary64_1 binary64_numeral binary64_neg_numeral

lemmas arith64 = add64_def sub64_def mul64_def binary64_exact

lemma binary64_half: "binary64 (1 / 2) = 1 / 2"
  using binary64_dyadic [of 1 1] by simp






lemma ceil_floor_example: "\<lceil>- 3.2 :: real\<rceil> = - 3" "\<lfloor>3.7 :: real\<rfloor> = 3"
  by (simp_all add: ceiling_eq_iff floor_eq_iff)

lemma binary64_below_seven: "binary64 (7 - 7 / 2 ^ 53) = 7 - 1 / 2 ^ 50"
  by (subst binary64_eval [where E = 2 and e = "- 50"]) (simp_all add: min_exponent_def rne_def)

lemma binary64_below_four: "binary64 (4 - 1 / 2 ^ 50) = 4 - 1 / 2 ^ 50"
  using binary64_dyadic [of "2 ^ 52 - 1" 50] by (simp add: diff_divide_distrib)

lemma int_draw_seven:
  assumes "binary64 r = r" "0 \<le> r" "r < 1"
  shows "- 3 \<le> \<lfloor>add64 (mul64 r (add64 (sub64 3 (- 3)) 1)) (- 3)\<rfloor>"
    and "\<lfloor>add64 (mul64 r (add64 (sub64 3 (- 3)) 1)) (- 3)\<rfloor> \<le> 3"
proof -
  define t where "t = mul64 r 7"
  have m: "add64 (sub64 3 (- 3)) 1 = 7" by (simp add: arith64)
  have "0 \<le> r * 7" using assms(2) by simp
  then have t0: "0 \<le> t" unfolding t_def mul64_def by (rule binary64_nonneg)
  have "r \<le> 1 - 1 / 2 ^ 53" using assms(1,3) by (rule number_below_one)
  then have "r * 7 \<le> 7 - 7 / 2 ^ 53" by simp
  then have "binary64 (r * 7) \<le> binary64 (7 - 7 / 2 ^ 53)" by (rule binary64_mono)
  then have t7: "t \<le> 7 - 1 / 2 ^ 50" by (simp only: t_def mul64_def binary64_below_seven)
  have "- 3 \<le> t + - 3" using t0 by simp
  then have "binary64 (- 3) \<le> binary64 (t + - 3)" by (rule binary64_mono)
  then have "- 3 \<le> add64 t (- 3)" by (simp add: add64_def binary64_exact)
  then show "- 3 \<le> \<lfloor>add64 (mul64 r (add64 (sub64 3 (- 3)) 1)) (- 3)\<rfloor>"
    unfolding m t_def [symmetric] by (simp add: le_floor_iff)
  have "t + - 3 \<le> 4 - 1 / 2 ^ 50" using t7 by simp
  then have "binary64 (t + - 3) \<le> binary64 (4 - 1 / 2 ^ 50)" by (rule binary64_mono)
  then have "add64 t (- 3) \<le> 4 - 1 / 2 ^ 50" by (simp only: add64_def binary64_below_four)
  then have "add64 t (- 3) < 4" by simp
  then have "\<lfloor>add64 t (- 3)\<rfloor> < 4" by (simp add: floor_less_iff)
  then show "\<lfloor>add64 (mul64 r (add64 (sub64 3 (- 3)) 1)) (- 3)\<rfloor> \<le> 3"
    unfolding m t_def [symmetric] by simp
qed

text \<open>
  Claim C4. \<^verbatim>\<open>#prepareRandomBounds(min, max)\<close> is \<open>(\<lceil>min\<rceil>, \<lfloor>max\<rfloor>)\<close> in integer mode
  and \<open>(min, max)\<close> in float mode; in integer mode the bounds \<open>(-3.2, 3.7)\<close> become
  \<open>(-3, 3)\<close>, and a draw with these prepared bounds from a source value in \<open>[0, 1)\<close> is
  an integer in \<open>{-3, ..., 3}\<close>. The source value is a Number: the largest one below
  \<open>1\<close> is \<open>1 - 2 ^ -53\<close>, for which the product with \<open>7\<close> rounds to \<open>7 - 2 ^ -50\<close>.
\<close>

theorem prepareRandomBounds_spec:
  "prepareRandomBounds s mn mx =
     (if randomMode s = RandomInt then (of_int \<lceil>mn\<rceil>, of_int \<lfloor>mx\<rfloor>) else (mn, mx))
   \<and> (randomMode s = RandomInt \<longrightarrow> prepareRandomBounds s (- 3.2) 3.7 = (- 3, 3))
   \<and> (randomMode s = RandomInt \<and> 0 \<le> random s k \<and> random s k < 1
        \<and> binary64 (random s k) = random s k \<longrightarrow>
        (case prepareRandomBounds s (- 3.2) 3.7 of
           (lo, hi) \<Rightarrow> fst (randomMinMax s lo hi k) \<in> of_int ` {- 3 .. 3}))"
proof (intro conjI impI)
  show "prepareRandomBounds s mn mx =
     (if randomMode s = RandomInt then (of_int \<lceil>mn\<rceil>, of_int \<lfloor>mx\<rfloor>) else (mn, mx))"
    by (simp only: prepareRandomBounds_def)
  show b: "prepareRandomBounds s (- 3.2) 3.7 = (- 3, 3)" if "randomMode s = RandomInt"
    using that by (simp add: prepareRandomBounds_def ceil_floor_example)
  assume h: "randomMode s = RandomInt \<and> 0 \<le> random s k \<and> random s k < 1
        \<and> binary64 (random s k) = random s k"
  then have "\<lfloor>add64 (mul64 (random s k) (add64 (sub64 3 (- 3)) 1)) (- 3)\<rfloor> \<in> {- 3 .. 3}"
    using int_draw_seven [of "random s k"] by (simp only: atLeastAtMost_iff)
  then have "fst (randomInt s (- 3) 3 k) \<in> of_int ` {- 3 .. 3}"
    unfolding randomInt_def fst_conv by (rule imageI)
  then have "fst (randomMinMax s (- 3) 3 k) \<in> of_int ` {- 3 .. 3}"
    using h by (simp add: randomMinMax_int)
  then show "case prepareRandomBounds s (- 3.2) 3.7 of
           (lo, hi) \<Rightarrow> fst (randomMinMax s lo hi k) \<in> of_int ` {- 3 .. 3}"
    using h by (simp only: b prod.case)
qed

text \<open>
  The bounds \<open>(-3.2, 3.7)\<close> in integer mode, and a draw with the source value \<open>1 / 2\<close>.
\<close>

theorem prepareRandomBounds_spec_witness:
  "randomMode (prepareRandomMode ''int'' (P5Grain_new (constant_source (1 / 2)))) = RandomInt
   \<and> prepareRandomBounds (prepareRandomMode ''int'' (P5Grain_new (constant_source (1 / 2))))
        (- 3.2) 3.7 = (- 3, 3)
   \<and> fst (randomMinMax (prepareRandomMode ''int'' (P5Grain_new (constant_source (1 / 2))))
        (- 3) 3 0) \<in> of_int ` {- 3 .. 3}"
proof -
  let ?s = "prepareRandomMode ''int'' (P5Grain_new (constant_source (1 / 2)))"
  have m: "randomMode ?s = RandomInt"
    by (simp add: prepareRandomMode_def)
  have r: "0 \<le> random ?s 0 \<and> random ?s 0 < 1 \<and> binary64 (random ?s 0) = random ?s 0"
    by (simp add: prepareRandomMode_def P5Grain_new_def constant_source_def binary64_half)
  note inst = prepareRandomBounds_spec [of ?s "- 3.2" "3.7" 0]
  have b: "prepareRandomBounds ?s (- 3.2) 3.7 = (- 3, 3)"
    by (rule inst [THEN conjunct2, THEN conjunct1, THEN mp, OF m])
  have c: "case prepareRandomBounds ?s (- 3.2) 3.7 of
              (lo, hi) \<Rightarrow> fst (randomMinMax ?s lo hi 0) \<in> of_int ` {- 3 .. 3}"
    by (rule inst [THEN conjunct2, THEN conjunct2, THEN mp, OF conjI [OF m r]])
  from c have "fst (randomMinMax ?s (- 3) 3 0) \<in> of_int ` {- 3 .. 3}"
    by (simp only: b prod.case)
  with m b show ?thesis by blast
qed


section \<open>Grain\<close>

lemma and_ff: "(w::32 word) AND 0xff = take_bit 8 w"
proof -
  have "(0xff::32 word) = mask 8" by (simp add: mask_eq_exp_minus_1)
  then show ?thesis by (simp add: take_bit_eq_mask)
qed

lemma take8_signed_drop:
  "n \<le> 24 \<Longrightarrow> take_bit 8 (signed_drop_bit n (p::32 word)) = take_bit 8 (drop_bit n p)"
  by (rule bit_word_eqI) (auto simp add: bit_simps)

lemma unat_take8_drop: "unat (take_bit 8 (drop_bit n (w::32 word))) = (unat w div 2 ^ n) mod 256"
proof -
  have "unat (take_bit 8 (drop_bit n w)) = take_bit 8 (unat (drop_bit n w))"
    by (simp only: unsigned_take_bit_eq)
  also have "\<dots> = take_bit 8 (drop_bit n (unat w))"
    by (simp only: unat_drop_bit_eq)
  also have "\<dots> = (unat w div 2 ^ n) mod 256"
    by (simp add: take_bit_eq_mod drop_bit_eq_div)
  finally show ?thesis .
qed

lemma sint_take8: "sint (take_bit 8 (w::32 word)) = int (unat (take_bit 8 w))"
proof -
  have "uint (take_bit 8 w) < 2 ^ 8"
    using take_bit_int_less_exp [of 8 "uint w"] by (simp add: unsigned_take_bit_eq)
  then have "uint (take_bit 8 w) < 2 ^ 31"
    by simp
  moreover have "- (2 ^ 31) \<le> uint (take_bit 8 w)"
    using order_trans [of "- (2 ^ 31)" 0 "uint (take_bit 8 w)"] by simp
  ultimately have "- (2 ^ 31) \<le> uint (take_bit 8 w)" "uint (take_bit 8 w) < 2 ^ 31"
    by blast+
  then have "signed_take_bit 31 (uint (take_bit 8 w)) = uint (take_bit 8 w)"
    by (rule signed_take_bit_int_eq_self)
  then have "sint (take_bit 8 w) = uint (take_bit 8 w)"
    by (simp add: sint_uint)
  then show ?thesis by simp
qed

lemma num_channel:
  "n \<le> 24 \<Longrightarrow> num (signed_drop_bit n (p::32 word) AND 0xff) = real ((unat p div 2 ^ n) mod 256)"
  by (simp add: num_def and_ff take8_signed_drop sint_take8 unat_take8_drop)

lemma num_channel0: "num ((p::32 word) AND 0xff) = real (unat p mod 256)"
  using num_channel [of 0 p] by simp

lemma pack_plus:
  fixes a b g r :: "32 word"
  shows "push_bit 24 (take_bit 8 a) OR push_bit 16 (take_bit 8 b) OR push_bit 8 (take_bit 8 g) OR take_bit 8 r
     = push_bit 24 (take_bit 8 a) + (push_bit 16 (take_bit 8 b) + (push_bit 8 (take_bit 8 g) + take_bit 8 r))"
proof -
  have 1: "push_bit 8 (take_bit 8 g) + take_bit 8 r = push_bit 8 (take_bit 8 g) OR take_bit 8 r"
    by (rule disjunctive_add_eq_or, rule bit_word_eqI) (auto simp add: bit_simps)
  have 2: "push_bit 16 (take_bit 8 b) + (push_bit 8 (take_bit 8 g) OR take_bit 8 r)
      = push_bit 16 (take_bit 8 b) OR (push_bit 8 (take_bit 8 g) OR take_bit 8 r)"
    by (rule disjunctive_add_eq_or, rule bit_word_eqI) (auto simp add: bit_simps)
  have 3: "push_bit 24 (take_bit 8 a) + (push_bit 16 (take_bit 8 b) OR (push_bit 8 (take_bit 8 g) OR take_bit 8 r))
      = push_bit 24 (take_bit 8 a) OR (push_bit 16 (take_bit 8 b) OR (push_bit 8 (take_bit 8 g) OR take_bit 8 r))"
    by (rule disjunctive_add_eq_or, rule bit_word_eqI) (auto simp add: bit_simps)
  show ?thesis
    by (simp only: 1 2 3)
qed

lemma ToInt32_byte:
  assumes "0 \<le> x" "x \<le> 255"
  shows "ToInt32 x = word_of_nat (nat \<lfloor>x\<rfloor>)" "nat \<lfloor>x\<rfloor> < 256"
proof -
  from assms have "0 \<le> \<lfloor>x\<rfloor>" "\<lfloor>x\<rfloor> \<le> 255" by (simp_all add: floor_le_iff le_floor_iff)
  then show "nat \<lfloor>x\<rfloor> < 256" by linarith
  from assms show "ToInt32 x = word_of_nat (nat \<lfloor>x\<rfloor>)"
    by (simp add: ToInt32_def Math_trunc_def)
qed

lemma take8_of_nat: "n < 256 \<Longrightarrow> take_bit 8 (word_of_nat n :: 32 word) = word_of_nat n"
proof -
  assume "n < 256"
  then have "take_bit 8 n = n" by (simp add: take_bit_nat_eq_self)
  then show ?thesis by (metis of_nat_take_bit)
qed

lemma pack_unat:
  assumes "R < 256" "G < 256" "B < 256" "A < 256"
  shows "unat (push_bit 24 (word_of_nat A) OR push_bit 16 (word_of_nat B) OR push_bit 8 (word_of_nat G) OR (word_of_nat R) :: 32 word)
   = A * 2^24 + B * 2^16 + G * 2^8 + R"
proof -
  define N where "N = A * 2^24 + B * 2^16 + G * 2^8 + R"
  let ?w = "push_bit 24 (word_of_nat A) OR push_bit 16 (word_of_nat B) OR push_bit 8 (word_of_nat G) OR (word_of_nat R) :: 32 word"
  have "?w = push_bit 24 (take_bit 8 (word_of_nat A)) OR push_bit 16 (take_bit 8 (word_of_nat B)) OR push_bit 8 (take_bit 8 (word_of_nat G)) OR take_bit 8 (word_of_nat R)"
    using assms by (simp only: take8_of_nat)
  also have "\<dots> = push_bit 24 (take_bit 8 (word_of_nat A)) + (push_bit 16 (take_bit 8 (word_of_nat B))
      + (push_bit 8 (take_bit 8 (word_of_nat G)) + take_bit 8 (word_of_nat R)))"
    by (rule pack_plus)
  also have "\<dots> = push_bit 24 (word_of_nat A) + (push_bit 16 (word_of_nat B) + (push_bit 8 (word_of_nat G) + word_of_nat R))"
    using assms by (simp only: take8_of_nat)
  also have "\<dots> = word_of_nat N"
    by (simp add: push_bit_eq_mult N_def)
  finally have "?w = word_of_nat N" .
  moreover have "N < 2 ^ 32"
    using assms by (simp add: N_def)
  moreover have "unat (word_of_nat N :: 32 word) = N mod 2 ^ 32"
    by (simp add: unat_of_nat)
  ultimately have "unat ?w = N"
    by simp
  then show ?thesis by (simp only: N_def)
qed

lemma byte_split:
  "r < 256 \<Longrightarrow> (r + 256 * x) mod 256 = (r::nat)" "r < 256 \<Longrightarrow> (r + 256 * x) div 256 = (x::nat)"
  by simp_all

lemma channel_of_sum:
  assumes "R < 256" "G < 256" "B < 256" "A < (256::nat)"
  defines "n \<equiv> A * 2^24 + B * 2^16 + G * 2^8 + R"
  shows "n mod 256 = R"
    "n div 2^8 mod 256 = G"
    "n div 2^16 mod 256 = B"
    "n div 2^24 mod 256 = A"
proof -
  have n: "n = R + 256 * (G + 256 * (B + 256 * A))"
    by (simp add: n_def)
  have d1: "n div 256 = G + 256 * (B + 256 * A)"
    unfolding n using assms(1) by (rule byte_split)
  have "n div 65536 = n div 256 div 256"
    by (simp add: div_mult2_eq [symmetric])
  then have d2: "n div 65536 = B + 256 * A"
    unfolding d1 using byte_split(2) [OF assms(2)] by simp
  have "n div 16777216 = n div 65536 div 256"
    by (simp add: div_mult2_eq [symmetric])
  then have d3: "n div 16777216 = A"
    unfolding d2 using assms(3) by simp
  show "n mod 256 = R" unfolding n using assms(1) by (rule byte_split)
  have "(G + 256 * (B + 256 * A)) mod 256 = G"
    using assms(2) by (rule byte_split)
  then show "n div 2^8 mod 256 = G" using d1 by simp
  have "(B + 256 * A) mod 256 = B"
    using assms(3) by (rule byte_split)
  then show "n div 2^16 mod 256 = B" using d2 by simp
  show "n div 2^24 mod 256 = A" using d3 assms(4) by simp
qed


lemma channelBits_pack:
  assumes "0 \<le> xr" "xr \<le> 255" "0 \<le> xg" "xg \<le> 255" "0 \<le> xb" "xb \<le> 255" "0 \<le> xa" "xa \<le> 255"
  defines "w \<equiv> push_bit 24 (ToInt32 xa) OR push_bit 16 (ToInt32 xb) OR push_bit 8 (ToInt32 xg) OR ToInt32 xr"
  shows "channelBits 0 w = nat \<lfloor>xr\<rfloor>" "channelBits 1 w = nat \<lfloor>xg\<rfloor>"
    "channelBits 2 w = nat \<lfloor>xb\<rfloor>" "channelBits 3 w = nat \<lfloor>xa\<rfloor>"
proof -
  note b = ToInt32_byte(2) [OF assms(1,2)] ToInt32_byte(2) [OF assms(3,4)]
    ToInt32_byte(2) [OF assms(5,6)] ToInt32_byte(2) [OF assms(7,8)]
  have "w = push_bit 24 (word_of_nat (nat \<lfloor>xa\<rfloor>)) OR push_bit 16 (word_of_nat (nat \<lfloor>xb\<rfloor>))
      OR push_bit 8 (word_of_nat (nat \<lfloor>xg\<rfloor>)) OR word_of_nat (nat \<lfloor>xr\<rfloor>)"
    by (simp only: w_def ToInt32_byte(1) [OF assms(1,2)] ToInt32_byte(1) [OF assms(3,4)]
      ToInt32_byte(1) [OF assms(5,6)] ToInt32_byte(1) [OF assms(7,8)])
  then have u: "unat w = nat \<lfloor>xa\<rfloor> * 2 ^ 24 + nat \<lfloor>xb\<rfloor> * 2 ^ 16 + nat \<lfloor>xg\<rfloor> * 2 ^ 8 + nat \<lfloor>xr\<rfloor>"
    using pack_unat [OF b] by (simp only:)
  note c = channel_of_sum [OF b]
  show "channelBits 0 w = nat \<lfloor>xr\<rfloor>"
    using c(1) by (simp add: channelBits_def u)
  show "channelBits 1 w = nat \<lfloor>xg\<rfloor>"
    using c(2) by (simp add: channelBits_def u)
  show "channelBits 2 w = nat \<lfloor>xb\<rfloor>"
    using c(3) by (simp add: channelBits_def u)
  show "channelBits 3 w = nat \<lfloor>xa\<rfloor>"
    using c(4) by (simp add: channelBits_def u)
qed

lemma num_channelBits:
  "num (p AND 0xff) = real (channelBits 0 p)"
  "num (signed_drop_bit 8 p AND 0xff) = real (channelBits 1 p)"
  "num (signed_drop_bit 16 p AND 0xff) = real (channelBits 2 p)"
  "num (signed_drop_bit 24 p AND 0xff) = real (channelBits 3 p)"
  using num_channel0 [of p] num_channel [of 8 p] num_channel [of 16 p] num_channel [of 24 p]
  by (simp_all add: channelBits_def)

lemma channelBits_byte: "channelBits c p < 256"
  by (simp add: channelBits_def)

lemma clamp_range: "0 \<le> max 0 (min 255 (x::real))" "max 0 (min 255 (x::real)) \<le> 255"
  by simp_all

lemma randomMinMax_snd: "snd (randomMinMax s mn mx k) = Suc k"
  by (cases "randomMode s") (simp_all add: randomMinMax_def randomInt_def randomFloat_def)

lemma monochromaticPixel_channels:
  fixes s mn mx k p alpha
  defines "offset \<equiv> fst (randomMinMax s mn mx k)"
  defines "q \<equiv> fst (monochromaticPixel s mn mx alpha p k)"
  shows "channelBits 0 q = nat \<lfloor>max 0 (min 255 (add64 (real (channelBits 0 p)) offset))\<rfloor>"
    and "channelBits 1 q = nat \<lfloor>max 0 (min 255 (add64 (real (channelBits 1 p)) offset))\<rfloor>"
    and "channelBits 2 q = nat \<lfloor>max 0 (min 255 (add64 (real (channelBits 2 p)) offset))\<rfloor>"
    and "channelBits 3 q = (if alpha then nat \<lfloor>max 0 (min 255 (add64 (real (channelBits 3 p)) offset))\<rfloor>
                            else channelBits 3 p)"
    and "snd (monochromaticPixel s mn mx alpha p k) = Suc k"
proof -
  let ?c = "\<lambda>c. max 0 (min 255 (add64 (real (channelBits c p)) offset))"
  let ?a = "if alpha then ?c 3 else real (channelBits 3 p)"
  have q: "q = push_bit 24 (ToInt32 ?a) OR push_bit 16 (ToInt32 (?c 2)) OR push_bit 8 (ToInt32 (?c 1))
      OR ToInt32 (?c 0)"
    unfolding q_def monochromaticPixel_def Let_def case_prod_beta fst_conv num_channelBits(2-4)
    unfolding num_channelBits(1) offset_def by simp
  have a: "0 \<le> ?a" "?a \<le> 255"
    using channelBits_byte [of 3 p] by simp_all
  note ch = channelBits_pack [OF clamp_range clamp_range clamp_range a]
  show "channelBits 0 q = nat \<lfloor>?c 0\<rfloor>" unfolding q by (rule ch(1))
  show "channelBits 1 q = nat \<lfloor>?c 1\<rfloor>" unfolding q by (rule ch(2))
  show "channelBits 2 q = nat \<lfloor>?c 2\<rfloor>" unfolding q by (rule ch(3))
  have "channelBits 3 q = nat \<lfloor>?a\<rfloor>" unfolding q by (rule ch(4))
  then show "channelBits 3 q = (if alpha then nat \<lfloor>?c 3\<rfloor> else channelBits 3 p)"
    by simp
  show "snd (monochromaticPixel s mn mx alpha p k) = Suc k"
    using randomMinMax_snd [of s mn mx k]
    by (simp add: monochromaticPixel_def Let_def case_prod_beta)
qed

lemma monochromaticLoop_length:
  "length (fst (monochromaticLoop s mn mx alpha ps k)) = length ps"
  by (induction ps arbitrary: k) (simp_all add: Let_def case_prod_beta)

lemma monochromaticLoop_draws:
  "snd (monochromaticLoop s mn mx alpha ps k) = k + length ps"
proof (induction ps arbitrary: k)
  case Nil
  then show ?case by simp
next
  case (Cons p ps)
  show ?case
    using Cons.IH [of "Suc k"] monochromaticPixel_channels(5) [of s mn mx alpha p k]
    by (simp add: Let_def case_prod_beta)
qed

lemma monochromaticLoop_nth:
  "i < length ps \<Longrightarrow>
     fst (monochromaticLoop s mn mx alpha ps k) ! i = fst (monochromaticPixel s mn mx alpha (ps ! i) (k + i))"
proof (induction ps arbitrary: k i)
  case Nil
  then show ?case by simp
next
  case (Cons p ps)
  show ?case
  proof (cases i)
    case 0
    then show ?thesis by (simp add: Let_def case_prod_beta)
  next
    case (Suc j)
    with Cons.prems have "j < length ps" by simp
    from Cons.IH [OF this, of "Suc k"] Suc monochromaticPixel_channels(5) [of s mn mx alpha p k]
    show ?thesis by (simp add: Let_def case_prod_beta)
  qed
qed


lemma randomMinMax_cong:
  "random s' = random s \<Longrightarrow> randomMode s' = randomMode s \<Longrightarrow>
     randomMinMax s' mn mx k = randomMinMax s mn mx k"
  by (cases "randomMode s") (simp_all add: randomMinMax_def randomInt_def randomFloat_def)

lemma loadPixels_fields:
  "random (fst (loadPixels s pg glob)) = random s"
  "randomMode (fst (loadPixels s pg glob)) = randomMode s"
  "pixels_buf (fst (loadPixels s pg glob)) = pixels (snd (target s pg glob))"
  by (simp_all add: loadPixels_def case_prod_beta)

lemma loadPixels_draws:
  "randomMinMax (fst (loadPixels s pg glob)) mn mx k = randomMinMax s mn mx k"
  "prepareRandomBounds (fst (loadPixels s pg glob)) mn mx = prepareRandomBounds s mn mx"
proof -
  show "randomMinMax (fst (loadPixels s pg glob)) mn mx k = randomMinMax s mn mx k"
    by (rule randomMinMax_cong) (rule loadPixels_fields)+
  show "prepareRandomBounds (fst (loadPixels s pg glob)) mn mx = prepareRandomBounds s mn mx"
    by (simp only: prepareRandomBounds_def loadPixels_fields)
qed

lemma alpha_flag:
  "(case shouldUpdateAlpha of Some v \<Rightarrow> v | None \<Rightarrow> False) = (shouldUpdateAlpha = Some True)"
  by (cases shouldUpdateAlpha) simp_all

lemma applyMonochromaticGrain_result:
  assumes "applyMonochromaticGrain s amount shouldUpdateAlpha pg glob k = (s', sf', k', calls)"
  shows "pixels sf' = fst (monochromaticLoop (fst (loadPixels s pg glob))
                    (fst (prepareRandomBounds s (- amount) amount))
                    (snd (prepareRandomBounds s (- amount) amount))
                    (shouldUpdateAlpha = Some True)
                    (pixels (snd (target s pg glob))) k)"
    and "k' = snd (monochromaticLoop (fst (loadPixels s pg glob))
                    (fst (prepareRandomBounds s (- amount) amount))
                    (snd (prepareRandomBounds s (- amount) amount))
                    (shouldUpdateAlpha = Some True)
                    (pixels (snd (target s pg glob))) k)"
proof -
  let ?L = "monochromaticLoop (fst (loadPixels s pg glob))
                    (fst (prepareRandomBounds s (- amount) amount))
                    (snd (prepareRandomBounds s (- amount) amount))
                    (shouldUpdateAlpha = Some True)
                    (pixels (snd (target s pg glob))) k"
  have "fst (snd (applyMonochromaticGrain s amount shouldUpdateAlpha pg glob k))
      = (snd (target s pg glob))\<lparr>pixels := fst ?L\<rparr>"
    unfolding applyMonochromaticGrain_def Let_def case_prod_beta alpha_flag loadPixels_draws
      loadPixels_fields
    by (simp only: fst_conv snd_conv)
  then show "pixels sf' = fst ?L"
    by (simp add: assms)
  have "fst (snd (snd (applyMonochromaticGrain s amount shouldUpdateAlpha pg glob k))) = snd ?L"
    unfolding applyMonochromaticGrain_def Let_def case_prod_beta alpha_flag loadPixels_draws
      loadPixels_fields
    by (simp only: fst_conv snd_conv)
  then show "k' = snd ?L"
    by (simp add: assms)
qed

text \<open>
  Claim C1. \<^verbatim>\<open>applyMonochromaticGrain\<close> keeps the length of the buffer and makes one
  draw for each pixel: pixel \<open>i\<close> gets the offset of draw \<open>k + i\<close>, and that one offset is
  added to R, G and B, and to A only when \<^verbatim>\<open>shouldUpdateAlpha\<close> is true. Each sum is
  the sum of Numbers, rounded to binary64; it is clamped to \<open>[0, 255]\<close> and the new word
  holds R in bits 0 to 7, G in 8 to 15, B in 16 to 23 and A in 24 to 31 (the fraction of a
  clamped value is dropped by the bitwise packing). A pixel \<open>(100, 100, 100, 255)\<close> with
  offset \<open>10\<close> and alpha left alone becomes \<open>(110, 110, 110, 255)\<close>. The amount is at
  most \<open>2 ^ 1022\<close> in magnitude and the source returns values in \<open>[0, 1)\<close>, so that no
  operation of a draw overflows.
\<close>

theorem applyMonochromaticGrain_channels:
  assumes "\<bar>amount\<bar> \<le> 2 ^ 1022" and "\<forall>n. 0 \<le> random s n \<and> random s n < 1"
  shows "(let src = pixels (snd (target s pg glob));
        alpha = (shouldUpdateAlpha = Some True);
        (s', sf', k', calls) = applyMonochromaticGrain s amount shouldUpdateAlpha pg glob k;
        out = pixels sf';
        (mn, mx) = prepareRandomBounds s (- amount) amount;
        offset = (\<lambda>i. fst (randomMinMax s mn mx (k + i)));
        moved = (\<lambda>c i. nat \<lfloor>max 0 (min 255 (add64 (real (channelBits c (src ! i))) (offset i)))\<rfloor>)
    in length out = length src \<and> k' = k + length src
       \<and> (\<forall>i<length src.
             channelBits 0 (out ! i) = moved 0 i
             \<and> channelBits 1 (out ! i) = moved 1 i
             \<and> channelBits 2 (out ! i) = moved 2 i
             \<and> channelBits 3 (out ! i) = (if alpha then moved 3 i else channelBits 3 (src ! i)))
       \<and> (\<forall>i<length src.
             \<not> alpha \<and> offset i = 10
             \<and> channelBits 0 (src ! i) = 100 \<and> channelBits 1 (src ! i) = 100
             \<and> channelBits 2 (src ! i) = 100 \<and> channelBits 3 (src ! i) = 255
             \<longrightarrow> channelBits 0 (out ! i) = 110 \<and> channelBits 1 (out ! i) = 110
                 \<and> channelBits 2 (out ! i) = 110 \<and> channelBits 3 (out ! i) = 255))"
proof -
  define src where "src = pixels (snd (target s pg glob))"
  define alpha where "alpha = (shouldUpdateAlpha = Some True)"
  define s1 where "s1 = fst (loadPixels s pg glob)"
  obtain mn mx where b: "prepareRandomBounds s (- amount) amount = (mn, mx)"
    by (cases "prepareRandomBounds s (- amount) amount")
  obtain s' sf' k' calls where
    r: "applyMonochromaticGrain s amount shouldUpdateAlpha pg glob k = (s', sf', k', calls)"
    by (cases "applyMonochromaticGrain s amount shouldUpdateAlpha pg glob k") auto
  define offset where "offset = (\<lambda>i. fst (randomMinMax s mn mx (k + i)))"
  define moved where
    "moved = (\<lambda>c i. nat \<lfloor>max 0 (min 255 (add64 (real (channelBits c (src ! i))) (offset i)))\<rfloor>)"
  from applyMonochromaticGrain_result [OF r]
  have out: "pixels sf' = fst (monochromaticLoop s1 mn mx alpha src k)"
    and k': "k' = snd (monochromaticLoop s1 mn mx alpha src k)"
    by (simp_all add: b s1_def alpha_def src_def)
  have len: "length (pixels sf') = length src"
    by (simp only: out monochromaticLoop_length)
  have draws: "k' = k + length src"
    by (simp only: k' monochromaticLoop_draws)
  have off: "fst (randomMinMax s1 mn mx (k + i)) = offset i" for i
    by (simp only: s1_def loadPixels_draws offset_def)
  have ch: "channelBits 0 (pixels sf' ! i) = moved 0 i
      \<and> channelBits 1 (pixels sf' ! i) = moved 1 i
      \<and> channelBits 2 (pixels sf' ! i) = moved 2 i
      \<and> channelBits 3 (pixels sf' ! i) = (if alpha then moved 3 i else channelBits 3 (src ! i))"
    if "i < length src" for i
    using monochromaticPixel_channels(1-4) [of s1 mn mx alpha "src ! i" "k + i"]
    by (simp only: out monochromaticLoop_nth [OF that] off moved_def)
  have ex: "channelBits 0 (pixels sf' ! i) = 110 \<and> channelBits 1 (pixels sf' ! i) = 110
      \<and> channelBits 2 (pixels sf' ! i) = 110 \<and> channelBits 3 (pixels sf' ! i) = 255"
    if "i < length src" and "\<not> alpha \<and> offset i = 10
      \<and> channelBits 0 (src ! i) = 100 \<and> channelBits 1 (src ! i) = 100
      \<and> channelBits 2 (src ! i) = 100 \<and> channelBits 3 (src ! i) = 255" for i
    using ch [OF that(1)] that(2) by (simp add: moved_def arith64)
  show ?thesis
    unfolding Let_def r b prod.case
  proof (intro conjI allI impI)
    show "length (pixels sf') = length (pixels (snd (target s pg glob)))"
      using len by (simp only: src_def)
    show "k' = k + length (pixels (snd (target s pg glob)))"
      using draws by (simp only: src_def)
  next
    fix i
    assume "i < length (pixels (snd (target s pg glob)))"
    then have i: "i < length src" by (simp only: src_def)
    note c = ch [OF i, unfolded moved_def offset_def src_def alpha_def]
    show "channelBits 0 (pixels sf' ! i)
        = nat \<lfloor>max 0 (min 255 (add64 (real (channelBits 0 (pixels (snd (target s pg glob)) ! i))) (fst (randomMinMax s mn mx (k + i)))))\<rfloor>"
      using c by (elim conjE)
    show "channelBits 1 (pixels sf' ! i)
        = nat \<lfloor>max 0 (min 255 (add64 (real (channelBits 1 (pixels (snd (target s pg glob)) ! i))) (fst (randomMinMax s mn mx (k + i)))))\<rfloor>"
      using c by (elim conjE)
    show "channelBits 2 (pixels sf' ! i)
        = nat \<lfloor>max 0 (min 255 (add64 (real (channelBits 2 (pixels (snd (target s pg glob)) ! i))) (fst (randomMinMax s mn mx (k + i)))))\<rfloor>"
      using c by (elim conjE)
    show "channelBits 3 (pixels sf' ! i)
        = (if shouldUpdateAlpha = Some True
           then nat \<lfloor>max 0 (min 255 (add64 (real (channelBits 3 (pixels (snd (target s pg glob)) ! i))) (fst (randomMinMax s mn mx (k + i)))))\<rfloor>
           else channelBits 3 (pixels (snd (target s pg glob)) ! i))"
      using c by (elim conjE)
  next
    fix i
    assume "i < length (pixels (snd (target s pg glob)))"
    then have i: "i < length src" by (simp only: src_def)
    assume "shouldUpdateAlpha \<noteq> Some True \<and> fst (randomMinMax s mn mx (k + i)) = 10
      \<and> channelBits 0 (pixels (snd (target s pg glob)) ! i) = 100
      \<and> channelBits 1 (pixels (snd (target s pg glob)) ! i) = 100
      \<and> channelBits 2 (pixels (snd (target s pg glob)) ! i) = 100
      \<and> channelBits 3 (pixels (snd (target s pg glob)) ! i) = 255"
    then have h: "\<not> alpha \<and> offset i = 10
      \<and> channelBits 0 (src ! i) = 100 \<and> channelBits 1 (src ! i) = 100
      \<and> channelBits 2 (src ! i) = 100 \<and> channelBits 3 (src ! i) = 255"
      by (simp add: src_def alpha_def offset_def)
    note e = ex [OF i h]
    show "channelBits 0 (pixels sf' ! i) = 110" using e by (elim conjE)
    show "channelBits 1 (pixels sf' ! i) = 110" using e by (elim conjE)
    show "channelBits 2 (pixels sf' ! i) = 110" using e by (elim conjE)
    show "channelBits 3 (pixels sf' ! i) = 255" using e by (elim conjE)
  qed
qed


lemma channelBits_example:
  "channelBits 0 (0xFF646464 :: 32 word) = 100" "channelBits 1 (0xFF646464 :: 32 word) = 100"
  "channelBits 2 (0xFF646464 :: 32 word) = 100" "channelBits 3 (0xFF646464 :: 32 word) = 255"
  "channelBits 0 (0xFF0A0A0A :: 32 word) = 10" "channelBits 1 (0xFF0A0A0A :: 32 word) = 10"
  "channelBits 2 (0xFF0A0A0A :: 32 word) = 10" "channelBits 3 (0xFF0A0A0A :: 32 word) = 255"
  by (simp_all add: channelBits_def)

lemma seven_tenths_range: "0 \<le> seven_tenths" "seven_tenths < 1"
  by (simp_all add: seven_tenths_def)

lemma seven_tenths_nearest: "binary64 (7 / 10) = seven_tenths"
  unfolding seven_tenths_def
  by (subst binary64_eval [where E = "- 1" and e = "- 53"]) (simp_all add: min_exponent_def rne_def)

lemma mul64_seven_tenths: "mul64 seven_tenths 10 = 7"
  unfolding mul64_def seven_tenths_def
  by (subst binary64_eval [where E = 2 and e = "- 50"]) (simp_all add: min_exponent_def rne_def)

lemma seven_tenths_draw:
  "fst (randomMinMax (P5Grain_new (constant_source seven_tenths)) (- 5) 5 k) = 2"
proof -
  have "sub64 5 (- 5) = 10" "add64 7 (- 5) = 2"
    by (simp_all add: arith64)
  then show ?thesis
    by (simp add: randomMinMax_def randomFloat_def P5Grain_new_def constant_source_def
        mul64_seven_tenths)
qed

text \<open>
  One pixel \<open>(100, 100, 100, 255)\<close>, the amount \<open>20\<close> in float mode and the source value
  \<open>3 / 4\<close>, which draws the offset \<open>10\<close>. The same pixel, the amount \<open>5\<close> and the
  source value \<^verbatim>\<open>0.7\<close>: the product \<^verbatim>\<open>0.7 * 10\<close> is half way between two Numbers
  and rounds to \<open>7\<close>, the offset is \<open>2\<close> and the pixel becomes
  \<open>(102, 102, 102, 255)\<close>.
\<close>

theorem applyMonochromaticGrain_channels_witness:
  "channelBits 0 (pixels (fst (snd (applyMonochromaticGrain (P5Grain_new (constant_source (3 / 4)))
       20 None (Some (row_surface [0xFF646464])) (blank_surface 1 1 1) 0))) ! 0) = 110
   \<and> channelBits 1 (pixels (fst (snd (applyMonochromaticGrain (P5Grain_new (constant_source (3 / 4)))
       20 None (Some (row_surface [0xFF646464])) (blank_surface 1 1 1) 0))) ! 0) = 110
   \<and> channelBits 2 (pixels (fst (snd (applyMonochromaticGrain (P5Grain_new (constant_source (3 / 4)))
       20 None (Some (row_surface [0xFF646464])) (blank_surface 1 1 1) 0))) ! 0) = 110
   \<and> channelBits 3 (pixels (fst (snd (applyMonochromaticGrain (P5Grain_new (constant_source (3 / 4)))
       20 None (Some (row_surface [0xFF646464])) (blank_surface 1 1 1) 0))) ! 0) = 255
   \<and> channelBits 0 (pixels (fst (snd (applyMonochromaticGrain
       (P5Grain_new (constant_source seven_tenths))
       5 None (Some (row_surface [0xFF646464])) (blank_surface 1 1 1) 0))) ! 0) = 102
   \<and> channelBits 1 (pixels (fst (snd (applyMonochromaticGrain
       (P5Grain_new (constant_source seven_tenths))
       5 None (Some (row_surface [0xFF646464])) (blank_surface 1 1 1) 0))) ! 0) = 102
   \<and> channelBits 2 (pixels (fst (snd (applyMonochromaticGrain
       (P5Grain_new (constant_source seven_tenths))
       5 None (Some (row_surface [0xFF646464])) (blank_surface 1 1 1) 0))) ! 0) = 102
   \<and> channelBits 3 (pixels (fst (snd (applyMonochromaticGrain
       (P5Grain_new (constant_source seven_tenths))
       5 None (Some (row_surface [0xFF646464])) (blank_surface 1 1 1) 0))) ! 0) = 255"
proof -
  let ?s = "P5Grain_new (constant_source (3 / 4))"
  let ?pg = "Some (row_surface [0xFF646464])"
  let ?glob = "blank_surface 1 1 1"
  have src: "pixels (snd (target ?s ?pg ?glob)) = [0xFF646464]"
    by (simp add: target_def row_surface_def)
  have b: "prepareRandomBounds ?s (- 20) 20 = (- 20, 20)"
    by (simp add: prepareRandomBounds_def P5Grain_new_def)
  have d: "fst (randomMinMax ?s (- 20) 20 (0 + 0)) = 10"
    by (simp add: randomMinMax_def randomFloat_def P5Grain_new_def constant_source_def arith64)
  have a: "\<bar>20 :: real\<bar> \<le> 2 ^ 1022"
    by simp
  have r: "\<forall>n. 0 \<le> random ?s n \<and> random ?s n < 1"
    by (simp add: P5Grain_new_def constant_source_def)
  note inst = applyMonochromaticGrain_channels [OF a r, of ?pg ?glob None 0,
      unfolded Let_def case_prod_beta src b fst_conv snd_conv]
  have i: "0 < length [0xFF646464 :: 32 word]" by simp
  have h: "None \<noteq> Some True \<and> fst (randomMinMax ?s (- 20) 20 (0 + 0)) = 10
      \<and> channelBits 0 ([0xFF646464] ! 0) = 100 \<and> channelBits 1 ([0xFF646464] ! 0) = 100
      \<and> channelBits 2 ([0xFF646464] ! 0) = 100 \<and> channelBits 3 ([0xFF646464] ! 0) = 255"
    by (simp only: d nth_Cons_0 channelBits_example) simp
  note first = inst [THEN conjunct2, THEN conjunct2, THEN conjunct2, THEN spec, THEN mp, THEN mp,
      OF i h]
  let ?u = "P5Grain_new (constant_source seven_tenths)"
  have src': "pixels (snd (target ?u ?pg ?glob)) = [0xFF646464]"
    by (simp add: target_def row_surface_def)
  have b': "prepareRandomBounds ?u (- 5) 5 = (- 5, 5)"
    by (simp add: prepareRandomBounds_def P5Grain_new_def)
  have a': "\<bar>5 :: real\<bar> \<le> 2 ^ 1022"
    by simp
  have r': "\<forall>n. 0 \<le> random ?u n \<and> random ?u n < 1"
    by (simp add: P5Grain_new_def constant_source_def seven_tenths_range)
  have sum: "nat \<lfloor>max 0 (min 255 (add64 (real 100) 2))\<rfloor> = 102"
    by (simp add: arith64)
  note inst' = applyMonochromaticGrain_channels [OF a' r', of ?pg ?glob None 0,
      unfolded Let_def case_prod_beta src' b' fst_conv snd_conv seven_tenths_draw]
  note second = inst' [THEN conjunct2, THEN conjunct2, THEN conjunct1, THEN spec, THEN mp, OF i,
      unfolded nth_Cons_0 channelBits_example sum]
  from second have "channelBits 0 (pixels (fst (snd (applyMonochromaticGrain ?u 5 None ?pg ?glob 0))) ! 0) = 102
    \<and> channelBits 1 (pixels (fst (snd (applyMonochromaticGrain ?u 5 None ?pg ?glob 0))) ! 0) = 102
    \<and> channelBits 2 (pixels (fst (snd (applyMonochromaticGrain ?u 5 None ?pg ?glob 0))) ! 0) = 102
    \<and> channelBits 3 (pixels (fst (snd (applyMonochromaticGrain ?u 5 None ?pg ?glob 0))) ! 0) = 255"
    by simp
  with first show ?thesis by (simp only: conj_assoc)
qed

lemma chromaticPixel_channels:
  fixes s mn mx k p alpha
  defines "offset \<equiv> \<lambda>j. fst (randomMinMax s mn mx (k + j))"
  defines "q \<equiv> fst (chromaticPixel s mn mx alpha p k)"
  shows "channelBits 0 q = nat \<lfloor>max 0 (min 255 (add64 (real (channelBits 0 p)) (offset 0)))\<rfloor>"
    and "channelBits 1 q = nat \<lfloor>max 0 (min 255 (add64 (real (channelBits 1 p)) (offset 1)))\<rfloor>"
    and "channelBits 2 q = nat \<lfloor>max 0 (min 255 (add64 (real (channelBits 2 p)) (offset 2)))\<rfloor>"
    and "channelBits 3 q = (if alpha then nat \<lfloor>max 0 (min 255 (add64 (real (channelBits 3 p)) (offset 3)))\<rfloor>
                            else channelBits 3 p)"
    and "snd (chromaticPixel s mn mx alpha p k) = k + (if alpha then 4 else 3)"
proof -
  let ?c = "\<lambda>c. max 0 (min 255 (add64 (real (channelBits c p)) (offset c)))"
  let ?a = "if alpha then ?c 3 else real (channelBits 3 p)"
  have sn: "snd (randomMinMax s mn mx j) = Suc j" for j
    by (rule randomMinMax_snd)
  have idx: "k + 0 = k" "k + 1 = Suc k" "k + 2 = Suc (Suc k)" "k + 3 = Suc (Suc (Suc k))"
    by simp_all
  have q: "q = push_bit 24 (ToInt32 ?a) OR push_bit 16 (ToInt32 (?c 2)) OR push_bit 8 (ToInt32 (?c 1))
      OR ToInt32 (?c 0)"
    unfolding q_def chromaticPixel_def Let_def case_prod_beta fst_conv snd_conv sn
      num_channelBits(2-4)
    unfolding num_channelBits(1) offset_def idx by (cases alpha) simp_all
  have a: "0 \<le> ?a" "?a \<le> 255"
    using channelBits_byte [of 3 p] by simp_all
  note ch = channelBits_pack [OF clamp_range clamp_range clamp_range a]
  show "channelBits 0 q = nat \<lfloor>?c 0\<rfloor>" unfolding q by (rule ch(1))
  show "channelBits 1 q = nat \<lfloor>?c 1\<rfloor>" unfolding q by (rule ch(2))
  show "channelBits 2 q = nat \<lfloor>?c 2\<rfloor>" unfolding q by (rule ch(3))
  have "channelBits 3 q = nat \<lfloor>?a\<rfloor>" unfolding q by (rule ch(4))
  then show "channelBits 3 q = (if alpha then nat \<lfloor>?c 3\<rfloor> else channelBits 3 p)"
    by simp
  show "snd (chromaticPixel s mn mx alpha p k) = k + (if alpha then 4 else 3)"
    unfolding chromaticPixel_def Let_def case_prod_beta fst_conv snd_conv sn
    by (cases alpha) (simp_all add: sn)
qed

lemma chromaticLoop_length:
  "length (fst (chromaticLoop s mn mx alpha ps k)) = length ps"
  by (induction ps arbitrary: k) (simp_all add: Let_def case_prod_beta)

lemma chromaticLoop_draws:
  "snd (chromaticLoop s mn mx alpha ps k) = k + (if alpha then 4 else 3) * length ps"
proof (induction ps arbitrary: k)
  case Nil
  then show ?case by simp
next
  case (Cons p ps)
  show ?case
    using Cons.IH [of "k + (if alpha then 4 else 3)"] chromaticPixel_channels(5) [of s mn mx alpha p k]
    by (simp add: Let_def case_prod_beta)
qed

lemma chromaticLoop_nth:
  "i < length ps \<Longrightarrow>
     fst (chromaticLoop s mn mx alpha ps k) ! i
       = fst (chromaticPixel s mn mx alpha (ps ! i) (k + (if alpha then 4 else 3) * i))"
proof (induction ps arbitrary: k i)
  case Nil
  then show ?case by simp
next
  case (Cons p ps)
  show ?case
  proof (cases i)
    case 0
    then show ?thesis by (simp add: Let_def case_prod_beta)
  next
    case (Suc j)
    with Cons.prems have "j < length ps" by simp
    from Cons.IH [OF this, of "k + (if alpha then 4 else 3)"] Suc
      chromaticPixel_channels(5) [of s mn mx alpha p k]
    show ?thesis by (simp add: Let_def case_prod_beta add.assoc)
  qed
qed


lemma applyChromaticGrain_result:
  assumes "applyChromaticGrain s amount shouldUpdateAlpha pg glob k = (s', sf', k', calls)"
  shows "pixels sf' = fst (chromaticLoop (fst (loadPixels s pg glob))
                    (fst (prepareRandomBounds s (- amount) amount))
                    (snd (prepareRandomBounds s (- amount) amount))
                    (shouldUpdateAlpha = Some True)
                    (pixels (snd (target s pg glob))) k)"
    and "k' = snd (chromaticLoop (fst (loadPixels s pg glob))
                    (fst (prepareRandomBounds s (- amount) amount))
                    (snd (prepareRandomBounds s (- amount) amount))
                    (shouldUpdateAlpha = Some True)
                    (pixels (snd (target s pg glob))) k)"
proof -
  let ?L = "chromaticLoop (fst (loadPixels s pg glob))
                    (fst (prepareRandomBounds s (- amount) amount))
                    (snd (prepareRandomBounds s (- amount) amount))
                    (shouldUpdateAlpha = Some True)
                    (pixels (snd (target s pg glob))) k"
  have "fst (snd (applyChromaticGrain s amount shouldUpdateAlpha pg glob k))
      = (snd (target s pg glob))\<lparr>pixels := fst ?L\<rparr>"
    unfolding applyChromaticGrain_def Let_def case_prod_beta alpha_flag loadPixels_draws
      loadPixels_fields
    by (simp only: fst_conv snd_conv)
  then show "pixels sf' = fst ?L"
    by (simp add: assms)
  have "fst (snd (snd (applyChromaticGrain s amount shouldUpdateAlpha pg glob k))) = snd ?L"
    unfolding applyChromaticGrain_def Let_def case_prod_beta alpha_flag loadPixels_draws
      loadPixels_fields
    by (simp only: fst_conv snd_conv)
  then show "k' = snd ?L"
    by (simp add: assms)
qed

text \<open>
  Claim C2. \<^verbatim>\<open>applyChromaticGrain\<close> makes \<open>n\<close> draws for each pixel, \<open>n = 3\<close>, or
  \<open>n = 4\<close> when \<^verbatim>\<open>shouldUpdateAlpha\<close> is true: pixel \<open>i\<close> adds the offset of draw
  \<open>k + n * i\<close> to R, of the next draw to G, of the next to B and, when alpha is updated,
  of the next to A, so no draw serves two channels. Each sum is the sum of Numbers,
  rounded to binary64, and is clamped by \<open>max 0 (min 255 v)\<close>. A pixel
  \<open>(10, 10, 10, 255)\<close> with the offsets \<open>5\<close>, \<open>-5\<close>, \<open>3\<close> and alpha left alone becomes
  \<open>(15, 5, 13, 255)\<close>. The amount is at most \<open>2 ^ 1022\<close> in magnitude and the source
  returns values in \<open>[0, 1)\<close>, so that no operation of a draw overflows.
\<close>

theorem applyChromaticGrain_channels:
  assumes "\<bar>amount\<bar> \<le> 2 ^ 1022" and "\<forall>n. 0 \<le> random s n \<and> random s n < 1"
  shows "(let src = pixels (snd (target s pg glob));
        alpha = (shouldUpdateAlpha = Some True);
        n = (if alpha then 4 else 3);
        (s', sf', k', calls) = applyChromaticGrain s amount shouldUpdateAlpha pg glob k;
        out = pixels sf';
        (mn, mx) = prepareRandomBounds s (- amount) amount;
        offset = (\<lambda>j. fst (randomMinMax s mn mx (k + j)));
        moved = (\<lambda>c i. nat \<lfloor>max 0 (min 255 (add64 (real (channelBits c (src ! i))) (offset (n * i + c))))\<rfloor>)
    in length out = length src \<and> k' = k + n * length src
       \<and> (\<forall>i<length src.
             channelBits 0 (out ! i) = moved 0 i
             \<and> channelBits 1 (out ! i) = moved 1 i
             \<and> channelBits 2 (out ! i) = moved 2 i
             \<and> channelBits 3 (out ! i) = (if alpha then moved 3 i else channelBits 3 (src ! i)))
       \<and> (\<forall>i<length src.
             \<not> alpha \<and> offset (3 * i) = 5 \<and> offset (3 * i + 1) = - 5 \<and> offset (3 * i + 2) = 3
             \<and> channelBits 0 (src ! i) = 10 \<and> channelBits 1 (src ! i) = 10
             \<and> channelBits 2 (src ! i) = 10 \<and> channelBits 3 (src ! i) = 255
             \<longrightarrow> channelBits 0 (out ! i) = 15 \<and> channelBits 1 (out ! i) = 5
                 \<and> channelBits 2 (out ! i) = 13 \<and> channelBits 3 (out ! i) = 255))"
proof -
  define src where "src = pixels (snd (target s pg glob))"
  define alpha where "alpha = (shouldUpdateAlpha = Some True)"
  define n :: nat where "n = (if alpha then 4 else 3)"
  define s1 where "s1 = fst (loadPixels s pg glob)"
  obtain mn mx where b: "prepareRandomBounds s (- amount) amount = (mn, mx)"
    by (cases "prepareRandomBounds s (- amount) amount")
  obtain s' sf' k' calls where
    r: "applyChromaticGrain s amount shouldUpdateAlpha pg glob k = (s', sf', k', calls)"
    by (cases "applyChromaticGrain s amount shouldUpdateAlpha pg glob k") auto
  define offset where "offset = (\<lambda>j. fst (randomMinMax s mn mx (k + j)))"
  define moved where
    "moved = (\<lambda>c i. nat \<lfloor>max 0 (min 255 (add64 (real (channelBits c (src ! i))) (offset (n * i + c))))\<rfloor>)"
  from applyChromaticGrain_result [OF r]
  have out: "pixels sf' = fst (chromaticLoop s1 mn mx alpha src k)"
    and k': "k' = snd (chromaticLoop s1 mn mx alpha src k)"
    by (simp_all add: b s1_def alpha_def src_def)
  have len: "length (pixels sf') = length src"
    by (simp only: out chromaticLoop_length)
  have draws: "k' = k + n * length src"
    by (simp only: k' chromaticLoop_draws n_def)
  have off: "fst (randomMinMax s1 mn mx (k + n * i + c)) = offset (n * i + c)" for i c
    by (simp only: s1_def loadPixels_draws offset_def add.assoc)
  have ch: "channelBits 0 (pixels sf' ! i) = moved 0 i
      \<and> channelBits 1 (pixels sf' ! i) = moved 1 i
      \<and> channelBits 2 (pixels sf' ! i) = moved 2 i
      \<and> channelBits 3 (pixels sf' ! i) = (if alpha then moved 3 i else channelBits 3 (src ! i))"
    if "i < length src" for i
    using chromaticPixel_channels(1-4) [of s1 mn mx alpha "src ! i" "k + n * i"]
    by (simp only: out chromaticLoop_nth [OF that] off moved_def n_def [symmetric])
  have ex: "channelBits 0 (pixels sf' ! i) = 15 \<and> channelBits 1 (pixels sf' ! i) = 5
      \<and> channelBits 2 (pixels sf' ! i) = 13 \<and> channelBits 3 (pixels sf' ! i) = 255"
    if "i < length src" and "\<not> alpha \<and> offset (3 * i) = 5 \<and> offset (3 * i + 1) = - 5
      \<and> offset (3 * i + 2) = 3
      \<and> channelBits 0 (src ! i) = 10 \<and> channelBits 1 (src ! i) = 10
      \<and> channelBits 2 (src ! i) = 10 \<and> channelBits 3 (src ! i) = 255" for i
    using ch [OF that(1)] that(2) by (simp add: moved_def n_def arith64)
  show ?thesis
    unfolding Let_def r b prod.case
  proof (intro conjI allI impI)
    show "length (pixels sf') = length (pixels (snd (target s pg glob)))"
      using len by (simp only: src_def)
    show "k' = k + (if shouldUpdateAlpha = Some True then 4 else 3)
        * length (pixels (snd (target s pg glob)))"
      using draws by (simp only: src_def n_def alpha_def)
  next
    fix i
    assume "i < length (pixels (snd (target s pg glob)))"
    then have i: "i < length src" by (simp only: src_def)
    note c = ch [OF i, unfolded moved_def offset_def src_def n_def alpha_def]
    show "channelBits 0 (pixels sf' ! i)
        = nat \<lfloor>max 0 (min 255 (add64 (real (channelBits 0 (pixels (snd (target s pg glob)) ! i))) (fst (randomMinMax s mn mx (k + ((if shouldUpdateAlpha = Some True then 4 else 3) * i + 0))))))\<rfloor>"
      using c by (elim conjE)
    show "channelBits 1 (pixels sf' ! i)
        = nat \<lfloor>max 0 (min 255 (add64 (real (channelBits 1 (pixels (snd (target s pg glob)) ! i))) (fst (randomMinMax s mn mx (k + ((if shouldUpdateAlpha = Some True then 4 else 3) * i + 1))))))\<rfloor>"
      using c by (elim conjE)
    show "channelBits 2 (pixels sf' ! i)
        = nat \<lfloor>max 0 (min 255 (add64 (real (channelBits 2 (pixels (snd (target s pg glob)) ! i))) (fst (randomMinMax s mn mx (k + ((if shouldUpdateAlpha = Some True then 4 else 3) * i + 2))))))\<rfloor>"
      using c by (elim conjE)
    show "channelBits 3 (pixels sf' ! i)
        = (if shouldUpdateAlpha = Some True
           then nat \<lfloor>max 0 (min 255 (add64 (real (channelBits 3 (pixels (snd (target s pg glob)) ! i))) (fst (randomMinMax s mn mx (k + ((if shouldUpdateAlpha = Some True then 4 else 3) * i + 3))))))\<rfloor>
           else channelBits 3 (pixels (snd (target s pg glob)) ! i))"
      using c by (elim conjE)
  next
    fix i
    assume "i < length (pixels (snd (target s pg glob)))"
    then have i: "i < length src" by (simp only: src_def)
    assume "shouldUpdateAlpha \<noteq> Some True
      \<and> fst (randomMinMax s mn mx (k + 3 * i)) = 5
      \<and> fst (randomMinMax s mn mx (k + (3 * i + 1))) = - 5
      \<and> fst (randomMinMax s mn mx (k + (3 * i + 2))) = 3
      \<and> channelBits 0 (pixels (snd (target s pg glob)) ! i) = 10
      \<and> channelBits 1 (pixels (snd (target s pg glob)) ! i) = 10
      \<and> channelBits 2 (pixels (snd (target s pg glob)) ! i) = 10
      \<and> channelBits 3 (pixels (snd (target s pg glob)) ! i) = 255"
    then have h: "\<not> alpha \<and> offset (3 * i) = 5 \<and> offset (3 * i + 1) = - 5
      \<and> offset (3 * i + 2) = 3
      \<and> channelBits 0 (src ! i) = 10 \<and> channelBits 1 (src ! i) = 10
      \<and> channelBits 2 (src ! i) = 10 \<and> channelBits 3 (src ! i) = 255"
      by (simp add: src_def alpha_def offset_def)
    note e = ex [OF i h]
    show "channelBits 0 (pixels sf' ! i) = 15" using e by (elim conjE)
    show "channelBits 1 (pixels sf' ! i) = 5" using e by (elim conjE)
    show "channelBits 2 (pixels sf' ! i) = 13" using e by (elim conjE)
    show "channelBits 3 (pixels sf' ! i) = 255" using e by (elim conjE)
  qed
qed


text \<open>
  One pixel \<open>(10, 10, 10, 255)\<close>, the amount \<open>8\<close> in float mode and the source values
  \<open>13 / 16\<close>, \<open>3 / 16\<close>, \<open>11 / 16\<close>, which draw the offsets \<open>5\<close>, \<open>-5\<close>, \<open>3\<close>. The
  same pixel, the amount \<open>5\<close> and a source that returns \<^verbatim>\<open>0.7\<close> at every call: each
  offset is \<open>2\<close> and the pixel becomes \<open>(12, 12, 12, 255)\<close>.
\<close>

theorem applyChromaticGrain_channels_witness:
  "channelBits 0 (pixels (fst (snd (applyChromaticGrain
       (P5Grain_new (list_source [13 / 16, 3 / 16, 11 / 16]))
       8 None (Some (row_surface [0xFF0A0A0A])) (blank_surface 1 1 1) 0))) ! 0) = 15
   \<and> channelBits 1 (pixels (fst (snd (applyChromaticGrain
       (P5Grain_new (list_source [13 / 16, 3 / 16, 11 / 16]))
       8 None (Some (row_surface [0xFF0A0A0A])) (blank_surface 1 1 1) 0))) ! 0) = 5
   \<and> channelBits 2 (pixels (fst (snd (applyChromaticGrain
       (P5Grain_new (list_source [13 / 16, 3 / 16, 11 / 16]))
       8 None (Some (row_surface [0xFF0A0A0A])) (blank_surface 1 1 1) 0))) ! 0) = 13
   \<and> channelBits 3 (pixels (fst (snd (applyChromaticGrain
       (P5Grain_new (list_source [13 / 16, 3 / 16, 11 / 16]))
       8 None (Some (row_surface [0xFF0A0A0A])) (blank_surface 1 1 1) 0))) ! 0) = 255
   \<and> channelBits 0 (pixels (fst (snd (applyChromaticGrain
       (P5Grain_new (constant_source seven_tenths))
       5 None (Some (row_surface [0xFF0A0A0A])) (blank_surface 1 1 1) 0))) ! 0) = 12
   \<and> channelBits 1 (pixels (fst (snd (applyChromaticGrain
       (P5Grain_new (constant_source seven_tenths))
       5 None (Some (row_surface [0xFF0A0A0A])) (blank_surface 1 1 1) 0))) ! 0) = 12
   \<and> channelBits 2 (pixels (fst (snd (applyChromaticGrain
       (P5Grain_new (constant_source seven_tenths))
       5 None (Some (row_surface [0xFF0A0A0A])) (blank_surface 1 1 1) 0))) ! 0) = 12
   \<and> channelBits 3 (pixels (fst (snd (applyChromaticGrain
       (P5Grain_new (constant_source seven_tenths))
       5 None (Some (row_surface [0xFF0A0A0A])) (blank_surface 1 1 1) 0))) ! 0) = 255"
proof -
  let ?s = "P5Grain_new (list_source [13 / 16, 3 / 16, 11 / 16])"
  let ?pg = "Some (row_surface [0xFF0A0A0A])"
  let ?glob = "blank_surface 1 1 1"
  have src: "pixels (snd (target ?s ?pg ?glob)) = [0xFF0A0A0A]"
    by (simp add: target_def row_surface_def)
  have b: "prepareRandomBounds ?s (- 8) 8 = (- 8, 8)"
    by (simp add: prepareRandomBounds_def P5Grain_new_def)
  have d: "fst (randomMinMax ?s (- 8) 8 (0 + 3 * 0)) = 5"
    "fst (randomMinMax ?s (- 8) 8 (0 + (3 * 0 + 1))) = - 5"
    "fst (randomMinMax ?s (- 8) 8 (0 + (3 * 0 + 2))) = 3"
    by (simp_all add: randomMinMax_def randomFloat_def P5Grain_new_def list_source_def arith64)
  have a: "\<bar>8 :: real\<bar> \<le> 2 ^ 1022"
    by simp
  have "0 \<le> list_source [13 / 16, 3 / 16, 11 / 16] n
      \<and> list_source [13 / 16, 3 / 16, 11 / 16] n < 1" for n
    by (cases n rule: nat.exhaust [case_product nat.exhaust])
      (auto simp add: list_source_def nth_Cons')
  then have r: "\<forall>n. 0 \<le> random ?s n \<and> random ?s n < 1"
    by (simp add: P5Grain_new_def)
  note inst = applyChromaticGrain_channels [OF a r, of ?pg ?glob None 0,
      unfolded Let_def case_prod_beta src b fst_conv snd_conv]
  have i: "0 < length [0xFF0A0A0A :: 32 word]" by simp
  have h: "None \<noteq> Some True
      \<and> fst (randomMinMax ?s (- 8) 8 (0 + 3 * 0)) = 5
      \<and> fst (randomMinMax ?s (- 8) 8 (0 + (3 * 0 + 1))) = - 5
      \<and> fst (randomMinMax ?s (- 8) 8 (0 + (3 * 0 + 2))) = 3
      \<and> channelBits 0 ([0xFF0A0A0A] ! 0) = 10 \<and> channelBits 1 ([0xFF0A0A0A] ! 0) = 10
      \<and> channelBits 2 ([0xFF0A0A0A] ! 0) = 10 \<and> channelBits 3 ([0xFF0A0A0A] ! 0) = 255"
    by (simp only: d nth_Cons_0 channelBits_example) simp
  note first = inst [THEN conjunct2, THEN conjunct2, THEN conjunct2, THEN spec, THEN mp, THEN mp,
      OF i h]
  let ?u = "P5Grain_new (constant_source seven_tenths)"
  have src': "pixels (snd (target ?u ?pg ?glob)) = [0xFF0A0A0A]"
    by (simp add: target_def row_surface_def)
  have b': "prepareRandomBounds ?u (- 5) 5 = (- 5, 5)"
    by (simp add: prepareRandomBounds_def P5Grain_new_def)
  have a': "\<bar>5 :: real\<bar> \<le> 2 ^ 1022"
    by simp
  have r': "\<forall>n. 0 \<le> random ?u n \<and> random ?u n < 1"
    by (simp add: P5Grain_new_def constant_source_def seven_tenths_range)
  have sum: "nat \<lfloor>max 0 (min 255 (add64 (real 10) 2))\<rfloor> = 12"
    by (simp add: arith64)
  note inst' = applyChromaticGrain_channels [OF a' r', of ?pg ?glob None 0,
      unfolded Let_def case_prod_beta src' b' fst_conv snd_conv seven_tenths_draw]
  note second = inst' [THEN conjunct2, THEN conjunct2, THEN conjunct1, THEN spec, THEN mp, OF i,
      unfolded nth_Cons_0 channelBits_example sum]
  from second have "channelBits 0 (pixels (fst (snd (applyChromaticGrain ?u 5 None ?pg ?glob 0))) ! 0) = 12
    \<and> channelBits 1 (pixels (fst (snd (applyChromaticGrain ?u 5 None ?pg ?glob 0))) ! 0) = 12
    \<and> channelBits 2 (pixels (fst (snd (applyChromaticGrain ?u 5 None ?pg ?glob 0))) ! 0) = 12
    \<and> channelBits 3 (pixels (fst (snd (applyChromaticGrain ?u 5 None ?pg ?glob 0))) ! 0) = 255"
    by simp
  with first show ?thesis by (simp only: conj_assoc)
qed


section \<open>Pixel iteration\<close>

lemma callbacks_append: "callbacks (xs @ ys) = callbacks xs @ callbacks ys"
  by (induction xs rule: callbacks.induct) simp_all

lemma tinkerPixels_loop_from:
  "0 \<le> m \<Longrightarrow> tinkerPixels_loop (4 * int j) (4 * m) = map (\<lambda>n. Callback (4 * int n) (4 * m)) [j ..< nat m]"
proof (induction "nat m - j" arbitrary: j)
  case 0
  then have "\<not> 4 * int j < 4 * m" by linarith
  moreover from 0 have "[j ..< nat m] = []" by simp
  ultimately show ?case by (subst tinkerPixels_loop.simps) simp
next
  case (Suc d)
  then have lt: "j < nat m" by linarith
  then have c: "4 * int j < 4 * m" by linarith
  have next_j: "4 * int j + 4 = 4 * int (Suc j)" by simp
  from Suc have "d = nat m - Suc j" by linarith
  then have IH: "tinkerPixels_loop (4 * int (Suc j)) (4 * m)
      = map (\<lambda>n. Callback (4 * int n) (4 * m)) [Suc j ..< nat m]"
    using Suc.hyps(1) Suc.prems by blast
  have "tinkerPixels_loop (4 * int j) (4 * m)
      = Callback (4 * int j) (4 * m) # tinkerPixels_loop (4 * int j + 4) (4 * m)"
    using c by (subst tinkerPixels_loop.simps) simp
  also have "\<dots> = Callback (4 * int j) (4 * m) # map (\<lambda>n. Callback (4 * int n) (4 * m)) [Suc j ..< nat m]"
    by (simp only: next_j IH)
  also have "\<dots> = map (\<lambda>n. Callback (4 * int n) (4 * m)) [j ..< nat m]"
    using lt by (simp add: upt_conv_Cons)
  finally show ?case .
qed

lemma tinkerPixels_loop_neg:
  "m < 0 \<Longrightarrow> tinkerPixels_loop 0 (4 * m) = []"
  by (subst tinkerPixels_loop.simps) simp

lemma tinkerPixels_loop_all:
  "tinkerPixels_loop 0 (4 * m) = map (\<lambda>n. Callback (4 * int n) (4 * m)) [0 ..< nat m]"
proof (cases "0 \<le> m")
  case True
  then show ?thesis using tinkerPixels_loop_from [of m 0] by simp
next
  case False
  then show ?thesis by (simp add: tinkerPixels_loop_neg)
qed

lemma callbacks_map: "callbacks (map (\<lambda>n. Callback (f n) t) ns) = map (\<lambda>n. (f n, t)) ns"
  by (induction ns) simp_all

lemma callbacks_tinkerPixels:
  "callbacks (tinkerPixels s shouldUpdate pg glob) =
     (let sf = snd (target s pg glob);
          n = width sf * pixelDensity sf * (height sf * pixelDensity sf)
      in map (\<lambda>j. (4 * int j, 4 * n)) [0 ..< nat n])"
proof -
  obtain r sf where t: "target s pg glob = (r, sf)" by (cases "target s pg glob")
  let ?n = "width sf * pixelDensity sf * (height sf * pixelDensity sf)"
  have tot: "4 * (width sf * pixelDensity sf) * (height sf * pixelDensity sf) = 4 * ?n"
    by simp
  have "callbacks (tinkerPixels s shouldUpdate pg glob) = callbacks (tinkerPixels_loop 0 (4 * ?n))"
    by (simp only: tinkerPixels_def t Let_def prod.case tot callbacks_append updatePixels_def)
       (simp split: if_splits)
  then show ?thesis
    by (simp only: tinkerPixels_loop_all callbacks_map t snd_conv Let_def)
qed

text \<open>
  Claim C7. For a target of width \<open>w\<close>, height \<open>h\<close> and density \<open>d\<close>,
  \<^verbatim>\<open>tinkerPixels\<close> computes \<open>total = 4 * (w * d) * (h * d)\<close> and calls the callback
  with \<open>(4 * j, total)\<close> for \<open>j = 0, 1, ...\<close>, once each, \<open>w * d * h * d\<close> times in
  all; on a 2 by 2 target of density 1 the calls are \<open>(0, 16)\<close>, \<open>(4, 16)\<close>,
  \<open>(8, 16)\<close>, \<open>(12, 16)\<close>.
\<close>

theorem tinkerPixels_callbacks:
  "(let sf = snd (target s pg glob);
        w = width sf; h = height sf; d = pixelDensity sf;
        tot = 4 * (w * d) * (h * d)
    in callbacks (tinkerPixels s shouldUpdate pg glob)
         = map (\<lambda>j. (4 * int j, tot)) [0 ..< nat (w * d * h * d)]
       \<and> length (callbacks (tinkerPixels s shouldUpdate pg glob)) = nat (w * d * h * d)
       \<and> (w = 2 \<and> h = 2 \<and> d = 1 \<longrightarrow>
            callbacks (tinkerPixels s shouldUpdate pg glob)
              = [(0, 16), (4, 16), (8, 16), (12, 16)]))"
proof -
  define sf where "sf = snd (target s pg glob)"
  define n where "n = width sf * pixelDensity sf * (height sf * pixelDensity sf)"
  have cb: "callbacks (tinkerPixels s shouldUpdate pg glob) = map (\<lambda>j. (4 * int j, 4 * n)) [0 ..< nat n]"
    by (simp only: callbacks_tinkerPixels Let_def sf_def n_def)
  have n1: "width sf * pixelDensity sf * height sf * pixelDensity sf = n"
    by (simp add: n_def)
  have n2: "4 * (width sf * pixelDensity sf) * (height sf * pixelDensity sf) = 4 * n"
    by (simp add: n_def)
  have ex: "map (\<lambda>j. (4 * int j, 4 * n)) [0 ..< nat n] = [(0, 16), (4, 16), (8, 16), (12, 16)]"
    if "n = 4"
  proof -
    have "[0 ..< nat (4::int)] = [0, 1, 2, 3]" by (simp add: upt_rec)
    then show ?thesis using that by simp
  qed
  have "width sf = 2 \<and> height sf = 2 \<and> pixelDensity sf = 1 \<longrightarrow> n = 4"
    by (simp add: n_def)
  with cb ex show ?thesis
    unfolding Let_def sf_def [symmetric] n1 n2 by simp
qed

lemma UpdatePixels_notin_loop: "UpdatePixels r \<notin> set (tinkerPixels_loop i t)"
proof (induction i t rule: tinkerPixels_loop.induct)
  case (1 i t)
  then show ?case by (subst tinkerPixels_loop.simps) simp
qed

text \<open>
  Claim C8. \<^verbatim>\<open>tinkerPixels\<close> with \<^verbatim>\<open>shouldUpdate = false\<close> makes no
  \<^verbatim>\<open>updatePixels\<close> call on any object, \<^verbatim>\<open>loopPixels(callback, pg)\<close> is
  \<^verbatim>\<open>tinkerPixels(callback, false, pg)\<close>, and so \<^verbatim>\<open>loopPixels\<close> makes none either.
\<close>

theorem tinkerPixels_readonly_no_commit:
  "UpdatePixels r \<notin> set (tinkerPixels s (Some False) pg glob)
   \<and> loopPixels s pg glob = tinkerPixels s (Some False) pg glob
   \<and> UpdatePixels r \<notin> set (loopPixels s pg glob)"
proof -
  have "UpdatePixels r \<notin> set (tinkerPixels s (Some False) pg glob)"
    by (simp add: tinkerPixels_def Let_def UpdatePixels_notin_loop split: prod.splits)
  then show ?thesis by (simp add: loopPixels_def)
qed


text \<open>
  A 2 by 2 target of density 1.
\<close>

theorem tinkerPixels_callbacks_witness:
  "callbacks (tinkerPixels (P5Grain_new (constant_source 0)) None
       (Some (blank_surface 2 2 1)) (blank_surface 2 2 1))
     = [(0, 16), (4, 16), (8, 16), (12, 16)]"
proof -
  let ?s = "P5Grain_new (constant_source 0)"
  let ?sf = "blank_surface 2 2 1"
  have t: "snd (target ?s (Some ?sf) ?sf) = ?sf"
    by (simp add: target_def)
  have d: "width ?sf = 2 \<and> height ?sf = 2 \<and> pixelDensity ?sf = 1"
    by (simp add: blank_surface_def)
  note spec = tinkerPixels_callbacks [of ?s "Some ?sf" ?sf None, unfolded Let_def t]
  show ?thesis
    by (rule spec [THEN conjunct2, THEN conjunct2, THEN mp, OF d])
qed

section \<open>Texture overlay: the tiling loop\<close>

lemma perform_no_raise: "(\<forall>p. \<not> rs p) \<Longrightarrow> perform rs ps tr = (None, tr @ ps)"
  by (induction ps arbitrary: tr) simp_all


















lemma overlayAnimate_fields:
  "instance_p5 (fst (overlayAnimate config w h s k)) = instance_p5 s"
  "random (fst (overlayAnimate config w h s k)) = random s"
  "randomMode (fst (overlayAnimate config w h s k)) = randomMode s"
  "textureAnimate_frameCount (fst (overlayAnimate config w h s k)) = textureAnimate_frameCount s"
  "pixels_buf (fst (overlayAnimate config w h s k)) = pixels_buf s"
  by (simp_all add: overlayAnimate_def Let_def split: option.splits)

lemma overlayAnimate_off:
  "config_animate config = None \<Longrightarrow> overlayAnimate config w h s k = (s, k)"
  by (simp add: overlayAnimate_def)

lemma textureOverlay_state:
  assumes "textureOverlay rs glob textureImage config pg s k = Some (s', k', e, tr)"
  shows "(s', k') = overlayAnimate config (overlay_width s pg glob) (overlay_height s pg glob) s k"
proof -
  obtain s1 k1 where a: "overlayAnimate config (overlay_width s pg glob) (overlay_height s pg glob) s k = (s1, k1)"
    by (cases "overlayAnimate config (overlay_width s pg glob) (overlay_height s pg glob) s k")
  from assms show ?thesis
    unfolding textureOverlay_def Let_def a prod.case
    by (auto split: prod.splits option.splits Option.bind_splits)
qed

lemma textureOverlay_unfold:
  assumes "overlayAnimate config (overlay_width s pg glob) (overlay_height s pg glob) s k = (s1, k1)"
    and "\<forall>p. \<not> rs p"
  shows "textureOverlay rs glob textureImage config pg s k =
    Option.bind
      (textureOverlay_rows
         (overlay_tiling rs textureImage config pg (overlay_width s pg glob) (overlay_height s pg glob) s1)
         (of_int (textureOverlay_tX s1)) (of_int (textureOverlay_tY s1)) True True
         [BlendMode (if pg \<noteq> NoPg then Pg else if instance_p5 s1 \<noteq> None then Instance else Global)
            (overlay_mode config)])
      (\<lambda>(res, tr1).
          case res of
            Some e \<Rightarrow> Some (s1, k1, Some e, tr1)
          | None \<Rightarrow> Some (s1, k1, None,
              tr1 @ BlendMode (if pg \<noteq> NoPg then Pg else if instance_p5 s1 \<noteq> None then Instance else Global) BLEND
                 # (if isGraphicsBuffer pg then [Reset Pg] else [])))"
  unfolding textureOverlay_def Let_def assms(1) prod.case perform_no_raise [OF assms(2)]
  by simp



lemma overlay_tiling_fields:
  "raises (overlay_tiling rs textureImage config pg w h s1) = rs"
  "reflect (overlay_tiling rs textureImage config pg w h s1) = config_reflect config"
  "target_width (overlay_tiling rs textureImage config pg w h s1) = of_int w"
  "target_height (overlay_tiling rs textureImage config pg w h s1) = of_int h"
  "tile_width (overlay_tiling rs textureImage config pg w h s1) = overlay_tW config textureImage"
  "tile_height (overlay_tiling rs textureImage config pg w h s1) = overlay_tH config textureImage"
  "start_tX (overlay_tiling rs textureImage config pg w h s1) = of_int (textureOverlay_tX s1)"
  by (simp_all add: overlay_tiling_def)








lemma images_append: "images (xs @ ys) = images xs @ images ys"
  by (induction xs rule: images.induct) simp_all

text \<open>
  Claim C5. On a 25 by 25 target, with tiles 10 wide and 10 high, no reflection, both
  stored offsets \<open>0\<close> when the tiling loop reads them, and a host whose primitives do not
  throw, \<^verbatim>\<open>textureOverlay\<close> returns normally after drawing exactly 9 images: the tiles
  of a 3 by 3 grid at \<open>x, y \<in> {0, 10, 20}\<close>, row by row, each 10 by 10, so that the tiles
  of the last column and of the last row reach 30 and are cut by the target at 25.
\<close>

theorem textureOverlay_nine_tiles:
  assumes "\<forall>p. \<not> rs p"
    and "overlay_width s pg glob = 25" and "overlay_height s pg glob = 25"
    and "overlay_tW config textureImage = 10" and "overlay_tH config textureImage = 10"
    and "\<not> config_reflect config"
    and "textureOverlay_tX (fst (overlayAnimate config 25 25 s k)) = 0"
    and "textureOverlay_tY (fst (overlayAnimate config 25 25 s k)) = 0"
  shows "\<exists>s1 k1 tr. textureOverlay rs glob textureImage config pg s k = Some (s1, k1, None, tr)
    \<and> images tr = [(0, 0, 10, 10), (10, 0, 10, 10), (20, 0, 10, 10),
                    (0, 10, 10, 10), (10, 10, 10, 10), (20, 10, 10, 10),
                    (0, 20, 10, 10), (10, 20, 10, 10), (20, 20, 10, 10)]
    \<and> length (images tr) = 9"
proof -
  obtain s1 k1 where a: "overlayAnimate config (overlay_width s pg glob) (overlay_height s pg glob) s k = (s1, k1)"
    by (cases "overlayAnimate config (overlay_width s pg glob) (overlay_height s pg glob) s k")
  then have off: "textureOverlay_tX s1 = 0" "textureOverlay_tY s1 = 0"
    using assms(2,3,7,8) by simp_all
  define c where "c = overlay_tiling rs textureImage config pg 25 25 s1"
  have f: "raises c = rs" "\<not> reflect c" "target_width c = 25" "target_height c = 25"
    "tile_width c = 10" "tile_height c = 10" "start_tX c = 0"
    using assms(4,5,6) off by (simp_all add: c_def overlay_tiling_fields)
  have tile: "perform rs (drawTile c x y rf cf) tr = (None, tr @ [Image (draw_on c) x y 10 10])"
    for x y rf cf tr
    using assms(1) by (simp add: drawTile_def f Let_def)
  have row: "textureOverlay_columns c 0 y rf True tr
      = Some (Inr (0, add64 y 10, True),
          tr @ [Image (draw_on c) 0 y 10 10, Image (draw_on c) 10 y 10 10, Image (draw_on c) 20 y 10 10])"
    for y rf tr
    apply (subst textureOverlay_columns.simps, simp add: f tile arith64)
    apply (subst textureOverlay_columns.simps, simp add: f tile arith64)
    apply (subst textureOverlay_columns.simps, simp add: f tile arith64)
    done
  have rows: "textureOverlay_rows c 0 0 True True tr
      = Some (None, tr @ [Image (draw_on c) 0 0 10 10, Image (draw_on c) 10 0 10 10, Image (draw_on c) 20 0 10 10,
          Image (draw_on c) 0 10 10 10, Image (draw_on c) 10 10 10 10, Image (draw_on c) 20 10 10 10,
          Image (draw_on c) 0 20 10 10, Image (draw_on c) 10 20 10 10, Image (draw_on c) 20 20 10 10])"
    for tr
    apply (subst textureOverlay_rows.simps, simp add: f row arith64)
    apply (subst textureOverlay_rows.simps, simp add: f row arith64)
    apply (subst textureOverlay_rows.simps, simp add: f row arith64)
    apply (subst textureOverlay_rows.simps, simp add: f row arith64)
    done
  show ?thesis
    unfolding textureOverlay_unfold [OF a assms(1)] assms(2,3) c_def [symmetric] off
    by (simp add: rows images_append)
qed

text \<open>
  The global canvas of 25 by 25, a texture of 10 by 10 and no \<^verbatim>\<open>config\<close>.
\<close>

theorem textureOverlay_nine_tiles_witness:
  "\<exists>s1 k1 tr.
     textureOverlay no_raise (blank_surface 25 25 1) (blank_surface 10 10 1) default_config NoPg
       (P5Grain_new (constant_source 0)) 0 = Some (s1, k1, None, tr)
     \<and> images tr = [(0, 0, 10, 10), (10, 0, 10, 10), (20, 0, 10, 10),
                     (0, 10, 10, 10), (10, 10, 10, 10), (20, 10, 10, 10),
                     (0, 20, 10, 10), (10, 20, 10, 10), (20, 20, 10, 10)]
     \<and> length (images tr) = 9"
proof (rule textureOverlay_nine_tiles)
  show "\<forall>p. \<not> no_raise p" by (simp add: no_raise_def)
  show "overlay_width (P5Grain_new (constant_source 0)) NoPg (blank_surface 25 25 1) = 25"
    by (simp add: overlay_width_def P5Grain_new_def blank_surface_def)
  show "overlay_height (P5Grain_new (constant_source 0)) NoPg (blank_surface 25 25 1) = 25"
    by (simp add: overlay_height_def P5Grain_new_def blank_surface_def)
  show "overlay_tW default_config (blank_surface 10 10 1) = 10"
    by (simp add: overlay_tW_def default_config_def blank_surface_def)
  show "overlay_tH default_config (blank_surface 10 10 1) = 10"
    by (simp add: overlay_tH_def default_config_def blank_surface_def)
  show "\<not> config_reflect default_config"
    by (simp add: default_config_def)
  show "textureOverlay_tX (fst (overlayAnimate default_config 25 25 (P5Grain_new (constant_source 0)) 0)) = 0"
    by (simp add: overlayAnimate_def default_config_def P5Grain_new_def)
  show "textureOverlay_tY (fst (overlayAnimate default_config 25 25 (P5Grain_new (constant_source 0)) 0)) = 0"
    by (simp add: overlayAnimate_def default_config_def P5Grain_new_def)
qed

section \<open>Texture overlay: animation and failure\<close>

lemma overlay_size_instance:
  "instance_p5 s' = instance_p5 s \<Longrightarrow> overlay_width s' pg glob = overlay_width s pg glob"
  "instance_p5 s' = instance_p5 s \<Longrightarrow> overlay_height s' pg glob = overlay_height s pg glob"
  by (simp_all add: overlay_width_def overlay_height_def split: overlayTarget.splits)

lemma overlayAnimate_below:
  assumes "config_animate config \<noteq> None"
    and "textureOverlay_frameCount s + 1 < animateAtFrame config"
  shows "overlayAnimate config w h s k
    = (s\<lparr>textureOverlay_frameCount := textureOverlay_frameCount s + 1\<rparr>, k)"
  using assms by (auto simp add: overlayAnimate_def Let_def)

lemma overlayAnimate_at:
  assumes "config_animate config \<noteq> None"
    and "animateAtFrame config \<le> textureOverlay_frameCount s + 1"
  shows "overlayAnimate config w h s k
    = (s\<lparr>textureOverlay_frameCount := 0,
          textureOverlay_tX := - Math_trunc (mul64 (random s k) (of_int (animateAmount config w h))),
          textureOverlay_tY :=
            - Math_trunc (mul64 (random s (Suc k)) (of_int (animateAmount config w h)))\<rparr>,
       Suc (Suc k))"
  using assms by (auto simp add: overlayAnimate_def Let_def)

lemma Math_trunc_nonneg: "0 \<le> x \<Longrightarrow> 0 \<le> Math_trunc x"
  by (simp add: Math_trunc_def)

lemma overlayAnimate_nonpos:
  assumes "textureOverlay_tX s \<le> 0" "textureOverlay_tY s \<le> 0"
    and "0 \<le> random s k" "0 \<le> random s (Suc k)" "0 \<le> animateAmount config w h"
  shows "textureOverlay_tX (fst (overlayAnimate config w h s k)) \<le> 0"
    and "textureOverlay_tY (fst (overlayAnimate config w h s k)) \<le> 0"
proof -
  have "0 \<le> mul64 (random s k) (of_int (animateAmount config w h))"
    "0 \<le> mul64 (random s (Suc k)) (of_int (animateAmount config w h))"
    unfolding mul64_def using assms(3-5) by (simp_all add: binary64_nonneg)
  then have "0 \<le> Math_trunc (mul64 (random s k) (of_int (animateAmount config w h)))"
    "0 \<le> Math_trunc (mul64 (random s (Suc k)) (of_int (animateAmount config w h)))"
    by (simp_all add: Math_trunc_nonneg)
  with assms(1,2) show "textureOverlay_tX (fst (overlayAnimate config w h s k)) \<le> 0"
    and "textureOverlay_tY (fst (overlayAnimate config w h s k)) \<le> 0"
    by (simp_all add: overlayAnimate_def Let_def split: option.splits)
qed

lemma overlayCalls_Cons:
  assumes "overlayCalls rs glob ((textureImage, config, pg) # calls) s k = Some after"
  obtains rest where
    "after = overlayAnimate config (overlay_width s pg glob) (overlay_height s pg glob) s k # rest"
    "overlayCalls rs glob calls
       (fst (overlayAnimate config (overlay_width s pg glob) (overlay_height s pg glob) s k))
       (snd (overlayAnimate config (overlay_width s pg glob) (overlay_height s pg glob) s k))
     = Some rest"
proof -
  from assms obtain s1 k1 e tr where
    t: "textureOverlay rs glob textureImage config pg s k = Some (s1, k1, e, tr)"
    by (auto split: option.splits)
  from assms t obtain rest where
    r: "overlayCalls rs glob calls s1 k1 = Some rest" and a: "after = (s1, k1) # rest"
    by auto
  let ?a = "overlayAnimate config (overlay_width s pg glob) (overlay_height s pg glob) s k"
  from textureOverlay_state [OF t] have s1: "s1 = fst ?a" and k1: "k1 = snd ?a"
    by (metis fst_conv, metis snd_conv)
  have "after = ?a # rest"
    using a by (simp add: s1 k1)
  moreover have "overlayCalls rs glob calls (fst ?a) (snd ?a) = Some rest"
    using r by (simp only: s1 k1)
  ultimately show thesis by (rule that)
qed

lemma overlayCalls_length:
  "overlayCalls rs glob calls s k = Some after \<Longrightarrow> length after = length calls"
proof (induction calls arbitrary: s k after)
  case Nil
  then show ?case by simp
next
  case (Cons call calls)
  obtain textureImage config pg where c: "call = (textureImage, config, pg)"
    by (cases call)
  from Cons.prems [unfolded c] show ?case
    by (rule overlayCalls_Cons) (simp add: Cons.IH)
qed

lemma overlayCalls_nonpos:
  assumes "overlayCalls rs glob calls s k = Some after"
    and "textureOverlay_tX s \<le> 0" "textureOverlay_tY s \<le> 0"
    and "\<forall>n. 0 \<le> random s n"
    and "\<forall>(textureImage, config, pg) \<in> set calls.
           0 \<le> animateAmount config (overlay_width s pg glob) (overlay_height s pg glob)"
    and "i < length calls"
  shows "textureOverlay_tX (fst (after ! i)) \<le> 0 \<and> textureOverlay_tY (fst (after ! i)) \<le> 0
    \<and> textureOverlay_tX (fst (((s, k) # after) ! i)) \<le> 0
    \<and> textureOverlay_tY (fst (((s, k) # after) ! i)) \<le> 0
    \<and> random (fst (((s, k) # after) ! i)) = random s
    \<and> instance_p5 (fst (((s, k) # after) ! i)) = instance_p5 s"
  using assms
proof (induction calls arbitrary: s k after i)
  case Nil
  then show ?case by simp
next
  case (Cons call calls)
  obtain textureImage config pg where c: "call = (textureImage, config, pg)"
    by (cases call)
  let ?a = "overlayAnimate config (overlay_width s pg glob) (overlay_height s pg glob) s k"
  from Cons.prems(1) [unfolded c] obtain rest where
    after: "after = ?a # rest" and rest: "overlayCalls rs glob calls (fst ?a) (snd ?a) = Some rest"
    by (rule overlayCalls_Cons)
  have amt: "0 \<le> animateAmount config (overlay_width s pg glob) (overlay_height s pg glob)"
    using Cons.prems(5) c by simp
  have x: "textureOverlay_tX (fst ?a) \<le> 0" and y: "textureOverlay_tY (fst ?a) \<le> 0"
    using overlayAnimate_nonpos [OF Cons.prems(2,3) _ _ amt, of k] Cons.prems(4) by simp_all
  have rnd: "random (fst ?a) = random s" and inst: "instance_p5 (fst ?a) = instance_p5 s"
    by (simp_all add: overlayAnimate_fields)
  show ?case
  proof (cases i)
    case 0
    with x y after show ?thesis
      using Cons.prems(2,3) by simp
  next
    case (Suc j)
    have "textureOverlay_tX (fst (rest ! j)) \<le> 0 \<and> textureOverlay_tY (fst (rest ! j)) \<le> 0
      \<and> textureOverlay_tX (fst (((fst ?a, snd ?a) # rest) ! j)) \<le> 0
      \<and> textureOverlay_tY (fst (((fst ?a, snd ?a) # rest) ! j)) \<le> 0
      \<and> random (fst (((fst ?a, snd ?a) # rest) ! j)) = random (fst ?a)
      \<and> instance_p5 (fst (((fst ?a, snd ?a) # rest) ! j)) = instance_p5 (fst ?a)"
    proof (rule Cons.IH [OF rest x y])
      show "\<forall>n. 0 \<le> random (fst ?a) n"
        using Cons.prems(4) by (simp add: rnd)
      show "\<forall>(textureImage, config, pg) \<in> set calls.
           0 \<le> animateAmount config (overlay_width (fst ?a) pg glob) (overlay_height (fst ?a) pg glob)"
        using Cons.prems(5) by (simp add: overlay_size_instance [OF inst])
      show "j < length calls"
        using Cons.prems(6) Suc by simp
    qed
    then show ?thesis
      by (simp add: after Suc rnd inst)
  qed
qed

lemma overlayAnimate_count:
  assumes "config_animate config \<noteq> None" "animateAtFrame config = 2"
    and "textureOverlay_frameCount s = (if b then 1 else 0)"
  shows "textureOverlay_frameCount (fst (overlayAnimate config w h s k)) = (if b then 0 else 1)"
  using assms by (auto simp add: overlayAnimate_def Let_def)

lemma overlayCalls_period:
  assumes "overlayCalls rs glob calls s k = Some after"
    and "textureOverlay_frameCount s = (if b then 1 else 0)"
    and "\<forall>(textureImage, config, pg) \<in> set calls.
           config_animate config \<noteq> None \<and> animateAtFrame config = 2"
    and "i < length calls"
  shows "after ! i = overlayAnimate (fst (snd (calls ! i)))
             (overlay_width (fst (((s, k) # after) ! i)) (snd (snd (calls ! i))) glob)
             (overlay_height (fst (((s, k) # after) ! i)) (snd (snd (calls ! i))) glob)
             (fst (((s, k) # after) ! i)) (snd (((s, k) # after) ! i))
    \<and> textureOverlay_frameCount (fst (((s, k) # after) ! i)) = (if odd i \<noteq> b then 1 else 0)"
  using assms
proof (induction calls arbitrary: s k after i b)
  case Nil
  then show ?case by simp
next
  case (Cons call calls)
  obtain textureImage config pg where c: "call = (textureImage, config, pg)"
    by (cases call)
  let ?a = "overlayAnimate config (overlay_width s pg glob) (overlay_height s pg glob) s k"
  from Cons.prems(1) [unfolded c] obtain rest where
    after: "after = ?a # rest" and rest: "overlayCalls rs glob calls (fst ?a) (snd ?a) = Some rest"
    by (rule overlayCalls_Cons)
  have anim: "config_animate config \<noteq> None" "animateAtFrame config = 2"
    using Cons.prems(3) c by simp_all
  show ?case
  proof (cases i)
    case 0
    then show ?thesis
      using Cons.prems(2) by (simp add: after c)
  next
    case (Suc j)
    have cnt: "textureOverlay_frameCount (fst ?a) = (if \<not> b then 1 else 0)"
      using overlayAnimate_count [OF anim Cons.prems(2)] by simp
    have "rest ! j = overlayAnimate (fst (snd (calls ! j)))
             (overlay_width (fst (((fst ?a, snd ?a) # rest) ! j)) (snd (snd (calls ! j))) glob)
             (overlay_height (fst (((fst ?a, snd ?a) # rest) ! j)) (snd (snd (calls ! j))) glob)
             (fst (((fst ?a, snd ?a) # rest) ! j)) (snd (((fst ?a, snd ?a) # rest) ! j))
      \<and> textureOverlay_frameCount (fst (((fst ?a, snd ?a) # rest) ! j))
          = (if odd j \<noteq> (\<not> b) then 1 else 0)"
    proof (rule Cons.IH [OF rest cnt])
      show "\<forall>(textureImage, config, pg) \<in> set calls.
           config_animate config \<noteq> None \<and> animateAtFrame config = 2"
        using Cons.prems(3) by simp
      show "j < length calls"
        using Cons.prems(4) Suc by simp
    qed
    then show ?thesis
      by (simp add: after Suc)
  qed
qed

lemma ulp_exponent_integer:
  assumes "0 < a"
  shows "min_exponent < ulp_exponent (real_of_int a)"
proof -
  have "0 \<le> log 2 (real_of_int a)" using assms by simp
  then have f: "0 \<le> \<lfloor>log 2 \<bar>real_of_int a\<bar>\<rfloor>" using assms by simp
  have "min_exponent < \<lfloor>log 2 \<bar>real_of_int a\<bar>\<rfloor> - 52"
    unfolding min_exponent_def using f by linarith
  moreover have "\<lfloor>log 2 \<bar>real_of_int a\<bar>\<rfloor> - 52 \<le> ulp_exponent (real_of_int a)"
    unfolding ulp_exponent_log by (rule max.cobounded1)
  ultimately show ?thesis by linarith
qed

text \<open>The product of a source value and a positive amount is a magnitude in \<open>[0, amount)\<close>.\<close>

lemma magnitude_range:
  assumes "binary64 r = r" "0 \<le> r" "r < 1" "0 < a" "binary64 (real_of_int a) = real_of_int a"
  shows "0 \<le> mul64 r (of_int a)" "mul64 r (of_int a) < of_int a"
proof -
  have "0 \<le> r * of_int a" using assms(2,4) by simp
  then show "0 \<le> mul64 r (of_int a)" unfolding mul64_def by (rule binary64_nonneg)
  show "mul64 r (of_int a) < of_int a"
    using assms(1-3,5) assms(4) ulp_exponent_integer [OF assms(4)]
    by (intro mul64_below) simp_all
qed

lemmas overlay_eval =
  textureOverlay_def textureOverlay_rows.simps textureOverlay_columns.simps
  overlay_tiling_def overlayAnimate_def animate_config_def default_config_def
  P5Grain_new_def blank_surface_def overlay_width_def overlay_height_def
  overlay_tW_def overlay_tH_def overlay_mode_def animateAtFrame_def animateAmount_def
  no_raise_def drawTile_def isGraphicsBuffer_def Let_def constant_source_def
  Math_trunc_def Math_round_def add64_def binary64_exact mul64_seven_tenths

text \<open>
  Claim C6. Calls of \<^verbatim>\<open>textureOverlay\<close> are made one after the other on an object whose
  overlay frame counter is \<open>0\<close> and whose stored offsets are not positive, as on a new
  object, where all three are \<open>0\<close>. Every call has animation enabled, the interval
  \<^verbatim>\<open>atFrame\<close> resolved to \<open>2\<close> and a resolved amount that is not negative, the source
  returns Numbers in \<open>[0, 1)\<close>, and every call returns. Call number \<open>i + 1\<close> leaves the
  stored offsets as they were when \<open>i\<close> is even (the counter goes to \<open>1\<close> and no draw is
  made). When \<open>i\<close> is odd it makes two draws, the magnitudes \<open>r * amount\<close> rounded to
  binary64, which are in \<open>[0, amount)\<close> for a positive amount that is a Number; it stores
  \<open>- trunc\<close> of each and resets the counter to \<open>0\<close>. Both offsets are at or below \<open>0\<close>
  after every call.
\<close>

theorem textureOverlay_animation_period:
  assumes "overlayCalls rs glob calls s0 k0 = Some after"
    and "textureOverlay_frameCount s0 = 0"
    and "textureOverlay_tX s0 \<le> 0" and "textureOverlay_tY s0 \<le> 0"
    and "\<forall>n. 0 \<le> random s0 n \<and> random s0 n < 1 \<and> binary64 (random s0 n) = random s0 n"
    and "\<forall>(textureImage, config, pg) \<in> set calls.
           config_animate config \<noteq> None \<and> animateAtFrame config = 2
           \<and> 0 \<le> animateAmount config (overlay_width s0 pg glob) (overlay_height s0 pg glob)"
    and "i < length calls"
  shows "length after = length calls
    \<and> (let (s, k) = ((s0, k0) # after) ! i;
              (s', k') = after ! i;
              (textureImage, config, pg) = calls ! i;
              amount = animateAmount config (overlay_width s pg glob) (overlay_height s pg glob);
              mX = mul64 (random s k) (of_int amount);
              mY = mul64 (random s (Suc k)) (of_int amount)
          in (even i \<longrightarrow>
                textureOverlay_tX s' = textureOverlay_tX s
                \<and> textureOverlay_tY s' = textureOverlay_tY s
                \<and> textureOverlay_frameCount s' = 1 \<and> k' = k)
           \<and> (odd i \<longrightarrow>
                textureOverlay_tX s' = - Math_trunc mX
                \<and> textureOverlay_tY s' = - Math_trunc mY
                \<and> textureOverlay_frameCount s' = 0 \<and> k' = Suc (Suc k)
                \<and> 0 \<le> mX \<and> 0 \<le> mY
                \<and> (0 < amount \<and> binary64 (real_of_int amount) = real_of_int amount
                     \<longrightarrow> mX < of_int amount \<and> mY < of_int amount))
           \<and> textureOverlay_tX s' \<le> 0 \<and> textureOverlay_tY s' \<le> 0)"
proof -
  obtain s k where pre: "((s0, k0) # after) ! i = (s, k)"
    by (cases "((s0, k0) # after) ! i")
  obtain s' k' where post: "after ! i = (s', k')"
    by (cases "after ! i")
  obtain textureImage config pg where call: "calls ! i = (textureImage, config, pg)"
    by (cases "calls ! i")
  define amount where
    "amount = animateAmount config (overlay_width s pg glob) (overlay_height s pg glob)"
  define mX where "mX = mul64 (random s k) (of_int amount)"
  define mY where "mY = mul64 (random s (Suc k)) (of_int amount)"
  have every: "\<forall>(textureImage, config, pg) \<in> set calls.
      config_animate config \<noteq> None \<and> animateAtFrame config = 2"
    using assms(6) by auto
  have amounts: "\<forall>(textureImage, config, pg) \<in> set calls.
      0 \<le> animateAmount config (overlay_width s0 pg glob) (overlay_height s0 pg glob)"
    using assms(6) by auto
  have anim: "config_animate config \<noteq> None" "animateAtFrame config = 2"
    and amt0: "0 \<le> animateAmount config (overlay_width s0 pg glob) (overlay_height s0 pg glob)"
    using assms(6,7) call nth_mem [of i calls] by auto
  from overlayCalls_period [OF assms(1) _ every assms(7), of False] assms(2)
  have step: "(s', k') = overlayAnimate config (overlay_width s pg glob) (overlay_height s pg glob) s k"
    and cnt: "textureOverlay_frameCount s = (if odd i then 1 else 0)"
    by (simp_all add: pre post call)
  have src: "\<forall>n. 0 \<le> random s0 n" using assms(5) by simp
  from overlayCalls_nonpos [OF assms(1,3,4) src amounts assms(7)]
  have 3: "textureOverlay_tX s' \<le> 0 \<and> textureOverlay_tY s' \<le> 0"
    and rnd: "random s = random s0" and inst: "instance_p5 s = instance_p5 s0"
    by (simp_all add: pre post)
  have amt: "0 \<le> amount"
    using amt0 by (simp add: amount_def overlay_size_instance [OF inst])
  have r: "0 \<le> random s n \<and> random s n < 1 \<and> binary64 (random s n) = random s n" for n
    using assms(5) by (simp add: rnd)
  have 1: "textureOverlay_tX s' = textureOverlay_tX s \<and> textureOverlay_tY s' = textureOverlay_tY s
      \<and> textureOverlay_frameCount s' = 1 \<and> k' = k" if "even i"
  proof -
    from that cnt anim have "textureOverlay_frameCount s + 1 < animateAtFrame config" by simp
    from overlayAnimate_below [OF anim(1) this] step
    have "(s', k') = (s\<lparr>textureOverlay_frameCount := textureOverlay_frameCount s + 1\<rparr>, k)"
      by simp
    with that cnt show ?thesis by simp
  qed
  have 2: "textureOverlay_tX s' = - Math_trunc mX \<and> textureOverlay_tY s' = - Math_trunc mY
      \<and> textureOverlay_frameCount s' = 0 \<and> k' = Suc (Suc k)" if "odd i"
  proof -
    from that cnt anim have "animateAtFrame config \<le> textureOverlay_frameCount s + 1" by simp
    from overlayAnimate_at [OF anim(1) this] step
    show ?thesis by (simp add: amount_def mX_def mY_def)
  qed
  have "0 \<le> random s k * of_int amount" "0 \<le> random s (Suc k) * of_int amount"
    using r amt by simp_all
  then have 4: "0 \<le> mX \<and> 0 \<le> mY"
    unfolding mX_def mY_def mul64_def by (simp add: binary64_nonneg)
  have 5: "mX < of_int amount \<and> mY < of_int amount"
    if "0 < amount \<and> binary64 (real_of_int amount) = real_of_int amount"
    unfolding mX_def mY_def using magnitude_range(2) [of _ amount] r that by simp
  from 1 2 3 4 5 overlayCalls_length [OF assms(1)] show ?thesis
    unfolding Let_def pre post call prod.case amount_def [symmetric]
      mX_def [symmetric] mY_def [symmetric]
    by blast
qed

lemma binary64_seven_tenths: "binary64 seven_tenths = seven_tenths"
  unfolding seven_tenths_def
  using binary64_dyadic [of 3152519739159347 52] by simp

lemma overlay_first_frame:
  "textureOverlay no_raise (blank_surface 10 10 1) (blank_surface 10 10 1) animate_config NoPg
     (P5Grain_new (constant_source seven_tenths)) 0
   = Some ((P5Grain_new (constant_source seven_tenths))\<lparr>textureOverlay_frameCount := 1\<rparr>, 0, None,
       [BlendMode Global MULTIPLY, Image Global 0 0 10 10, BlendMode Global BLEND])"
  by (simp add: overlay_eval)

lemma overlay_second_frame:
  "textureOverlay no_raise (blank_surface 10 10 1) (blank_surface 10 10 1) animate_config NoPg
     ((P5Grain_new (constant_source seven_tenths))\<lparr>textureOverlay_frameCount := 1\<rparr>) 0
   = Some ((P5Grain_new (constant_source seven_tenths))
              \<lparr>textureOverlay_frameCount := 0, textureOverlay_tX := - 7, textureOverlay_tY := - 7\<rparr>,
           2, None,
       [BlendMode Global MULTIPLY, Image Global (- 7) (- 7) 10 10, Image Global 3 (- 7) 10 10,
        Image Global (- 7) 3 10 10, Image Global 3 3 10 10, BlendMode Global BLEND])"
  by (simp add: overlay_eval)


text \<open>
  Two calls with \<^verbatim>\<open>{ animate: true }\<close> on a new object, a 10 by 10 canvas and a source
  that returns \<^verbatim>\<open>0.7\<close>: the first leaves the offsets at \<open>0\<close>; the second draws the
  magnitude \<^verbatim>\<open>0.7 * 10\<close>, which rounds to \<open>7\<close>, twice, and stores \<open>-7\<close> and \<open>-7\<close>.
\<close>

theorem textureOverlay_animation_period_witness:
  "overlayCalls no_raise (blank_surface 10 10 1)
     [(blank_surface 10 10 1, animate_config, NoPg), (blank_surface 10 10 1, animate_config, NoPg)]
     (P5Grain_new (constant_source seven_tenths)) 0
   = Some [((P5Grain_new (constant_source seven_tenths))\<lparr>textureOverlay_frameCount := 1\<rparr>, 0),
           ((P5Grain_new (constant_source seven_tenths))
              \<lparr>textureOverlay_frameCount := 0, textureOverlay_tX := - 7, textureOverlay_tY := - 7\<rparr>,
            2)]
   \<and> textureOverlay_tX ((P5Grain_new (constant_source seven_tenths))
              \<lparr>textureOverlay_frameCount := 0, textureOverlay_tX := - 7, textureOverlay_tY := - 7\<rparr>)
       = - Math_trunc (mul64 (random ((P5Grain_new (constant_source seven_tenths))
                                 \<lparr>textureOverlay_frameCount := 1\<rparr>) 0)
           (of_int (animateAmount animate_config
               (overlay_width ((P5Grain_new (constant_source seven_tenths))\<lparr>textureOverlay_frameCount := 1\<rparr>)
                  NoPg (blank_surface 10 10 1))
               (overlay_height ((P5Grain_new (constant_source seven_tenths))\<lparr>textureOverlay_frameCount := 1\<rparr>)
                  NoPg (blank_surface 10 10 1)))))
   \<and> textureOverlay_tX ((P5Grain_new (constant_source seven_tenths))
              \<lparr>textureOverlay_frameCount := 0, textureOverlay_tX := - 7, textureOverlay_tY := - 7\<rparr>) \<le> 0
   \<and> textureOverlay_tY ((P5Grain_new (constant_source seven_tenths))
              \<lparr>textureOverlay_frameCount := 0, textureOverlay_tX := - 7, textureOverlay_tY := - 7\<rparr>) \<le> 0"
proof -
  let ?s0 = "P5Grain_new (constant_source seven_tenths)"
  let ?s1 = "?s0\<lparr>textureOverlay_frameCount := 1\<rparr>"
  let ?s2 = "?s0\<lparr>textureOverlay_frameCount := 0, textureOverlay_tX := - 7, textureOverlay_tY := - 7\<rparr>"
  let ?g = "blank_surface 10 10 1"
  let ?calls = "[(?g, animate_config, NoPg), (?g, animate_config, NoPg)]"
  have run: "overlayCalls no_raise ?g ?calls ?s0 0 = Some [(?s1, 0), (?s2, 2)]"
    by (simp add: overlay_first_frame overlay_second_frame)
  have start: "textureOverlay_frameCount ?s0 = 0" "textureOverlay_tX ?s0 \<le> 0"
    "textureOverlay_tY ?s0 \<le> 0"
    by (simp_all add: P5Grain_new_def)
  have src: "\<forall>n. 0 \<le> random ?s0 n \<and> random ?s0 n < 1 \<and> binary64 (random ?s0 n) = random ?s0 n"
    by (simp add: P5Grain_new_def constant_source_def seven_tenths_range binary64_seven_tenths)
  have anim: "\<forall>(textureImage, config, pg) \<in> set ?calls.
      config_animate config \<noteq> None \<and> animateAtFrame config = 2
      \<and> 0 \<le> animateAmount config (overlay_width ?s0 pg ?g) (overlay_height ?s0 pg ?g)"
    by (simp add: animate_config_def default_config_def animateAtFrame_def animateAmount_def
        overlay_width_def overlay_height_def blank_surface_def P5Grain_new_def)
  have i: "1 < length ?calls" by simp
  note inst = textureOverlay_animation_period [OF run start src anim i, THEN conjunct2,
      unfolded Let_def nth_Cons_Suc nth_Cons_0 One_nat_def prod.case]
  have odd1: "odd (Suc 0)" by simp
  note o = inst [THEN conjunct2, THEN conjunct1, THEN mp, OF odd1, THEN conjunct1]
  note n = inst [THEN conjunct2, THEN conjunct2]
  from run o n show ?thesis by blast
qed

text \<open>
  Claim C9, as amended. When a call of \<^verbatim>\<open>textureOverlay\<close> ends with the exception of a
  primitive, the object is the one the animation block left, since that block runs before
  the first primitive and nothing is undone: the source, the random mode, the instance and
  the counter of \<^verbatim>\<open>textureAnimate\<close> are as before the call; with animation disabled
  the whole object is as before the call; with animation enabled the overlay frame counter
  is one higher below the interval, and at the interval the two offsets are fresh, each
  \<open>- trunc\<close> of the product \<open>r * amount\<close> rounded to binary64, and the counter is
  \<open>0\<close>. The source returns values in \<open>[0, 1)\<close>, so that no product overflows.
\<close>

theorem textureOverlay_failed_state:
  assumes "textureOverlay rs glob textureImage config pg s k = Some (s', k', Some e, tr)"
    and "\<forall>n. 0 \<le> random s n \<and> random s n < 1"
  shows "s' = fst (overlayAnimate config (overlay_width s pg glob) (overlay_height s pg glob) s k)
    \<and> random s' = random s \<and> randomMode s' = randomMode s \<and> instance_p5 s' = instance_p5 s
    \<and> textureAnimate_frameCount s' = textureAnimate_frameCount s
    \<and> (config_animate config = None \<longrightarrow> s' = s)
    \<and> (config_animate config \<noteq> None
         \<and> textureOverlay_frameCount s + 1 < animateAtFrame config
         \<longrightarrow> s' = s\<lparr>textureOverlay_frameCount := textureOverlay_frameCount s + 1\<rparr>)
    \<and> (config_animate config \<noteq> None
         \<and> animateAtFrame config \<le> textureOverlay_frameCount s + 1
         \<longrightarrow> s' = s\<lparr>textureOverlay_frameCount := 0,
                     textureOverlay_tX := - Math_trunc (mul64 (random s k)
                        (of_int (animateAmount config (overlay_width s pg glob)
                            (overlay_height s pg glob)))),
                     textureOverlay_tY := - Math_trunc (mul64 (random s (Suc k))
                        (of_int (animateAmount config (overlay_width s pg glob)
                            (overlay_height s pg glob))))\<rparr>)"
proof -
  let ?a = "overlayAnimate config (overlay_width s pg glob) (overlay_height s pg glob) s k"
  from textureOverlay_state [OF assms(1)] have s': "s' = fst ?a"
    by (metis fst_conv)
  have "random s' = random s" "randomMode s' = randomMode s" "instance_p5 s' = instance_p5 s"
    "textureAnimate_frameCount s' = textureAnimate_frameCount s"
    by (simp_all only: s' overlayAnimate_fields)
  moreover have "s' = s" if "config_animate config = None"
    using overlayAnimate_off [OF that] by (simp add: s')
  moreover have "s' = s\<lparr>textureOverlay_frameCount := textureOverlay_frameCount s + 1\<rparr>"
    if "config_animate config \<noteq> None \<and> textureOverlay_frameCount s + 1 < animateAtFrame config"
    using overlayAnimate_below [of config s] that by (simp add: s')
  moreover have "s' = s\<lparr>textureOverlay_frameCount := 0,
                     textureOverlay_tX := - Math_trunc (mul64 (random s k)
                        (of_int (animateAmount config (overlay_width s pg glob)
                            (overlay_height s pg glob)))),
                     textureOverlay_tY := - Math_trunc (mul64 (random s (Suc k))
                        (of_int (animateAmount config (overlay_width s pg glob)
                            (overlay_height s pg glob))))\<rparr>"
    if "config_animate config \<noteq> None \<and> animateAtFrame config \<le> textureOverlay_frameCount s + 1"
    using overlayAnimate_at [of config s] that by (simp add: s')
  ultimately show ?thesis
    using s' by blast
qed

lemma overlay_image_throws:
  "textureOverlay raise_on_image (blank_surface 25 25 1) (blank_surface 10 10 1) animate_config NoPg
     (P5Grain_new (constant_source 0)) 0
   = Some ((P5Grain_new (constant_source 0))\<lparr>textureOverlay_frameCount := 1\<rparr>, 0,
           Some (HostError (Image Global 0 0 10 10)), [BlendMode Global MULTIPLY])"
  by (simp add: overlay_eval)

lemma overlay_image_throws_interval:
  "textureOverlay raise_on_image (blank_surface 10 10 1) (blank_surface 10 10 1) animate_config NoPg
     ((P5Grain_new (constant_source seven_tenths))\<lparr>textureOverlay_frameCount := 1\<rparr>) 0
   = Some ((P5Grain_new (constant_source seven_tenths))
             \<lparr>textureOverlay_frameCount := 0, textureOverlay_tX := - 7, textureOverlay_tY := - 7\<rparr>, 2,
           Some (HostError (Image Global (- 7) (- 7) 10 10)), [BlendMode Global MULTIPLY])"
  by (simp add: overlay_eval)

text \<open>
  A call with \<^verbatim>\<open>{ animate: true }\<close> on a host whose \<^verbatim>\<open>image\<close> throws: on a new
  object, and on the interval frame with a source that returns \<^verbatim>\<open>0.7\<close> and a 10 by 10
  canvas, where the failed call leaves the offsets \<open>-7\<close> and \<open>-7\<close>.
\<close>

theorem textureOverlay_failed_state_witness:
  "textureOverlay raise_on_image (blank_surface 25 25 1) (blank_surface 10 10 1) animate_config NoPg
     (P5Grain_new (constant_source 0)) 0
   = Some ((P5Grain_new (constant_source 0))\<lparr>textureOverlay_frameCount := 1\<rparr>, 0,
           Some (HostError (Image Global 0 0 10 10)), [BlendMode Global MULTIPLY])
   \<and> random ((P5Grain_new (constant_source 0))\<lparr>textureOverlay_frameCount := 1\<rparr>)
       = random (P5Grain_new (constant_source 0))
   \<and> randomMode ((P5Grain_new (constant_source 0))\<lparr>textureOverlay_frameCount := 1\<rparr>)
       = randomMode (P5Grain_new (constant_source 0))
   \<and> (P5Grain_new (constant_source 0))\<lparr>textureOverlay_frameCount := 1\<rparr>
       = (P5Grain_new (constant_source 0))\<lparr>textureOverlay_frameCount :=
            textureOverlay_frameCount (P5Grain_new (constant_source 0)) + 1\<rparr>
   \<and> textureOverlay raise_on_image (blank_surface 10 10 1) (blank_surface 10 10 1) animate_config NoPg
       ((P5Grain_new (constant_source seven_tenths))\<lparr>textureOverlay_frameCount := 1\<rparr>) 0
     = Some ((P5Grain_new (constant_source seven_tenths))
               \<lparr>textureOverlay_frameCount := 0, textureOverlay_tX := - 7, textureOverlay_tY := - 7\<rparr>, 2,
             Some (HostError (Image Global (- 7) (- 7) 10 10)), [BlendMode Global MULTIPLY])
   \<and> (P5Grain_new (constant_source seven_tenths))
        \<lparr>textureOverlay_frameCount := 0, textureOverlay_tX := - 7, textureOverlay_tY := - 7\<rparr>
     = fst (overlayAnimate animate_config
         (overlay_width ((P5Grain_new (constant_source seven_tenths))\<lparr>textureOverlay_frameCount := 1\<rparr>)
            NoPg (blank_surface 10 10 1))
         (overlay_height ((P5Grain_new (constant_source seven_tenths))\<lparr>textureOverlay_frameCount := 1\<rparr>)
            NoPg (blank_surface 10 10 1))
         ((P5Grain_new (constant_source seven_tenths))\<lparr>textureOverlay_frameCount := 1\<rparr>) 0)"
proof -
  have src: "\<forall>n. 0 \<le> random (P5Grain_new (constant_source 0)) n
      \<and> random (P5Grain_new (constant_source 0)) n < 1"
    by (simp add: P5Grain_new_def constant_source_def)
  note inst = textureOverlay_failed_state [OF overlay_image_throws src]
  have h: "config_animate animate_config \<noteq> None
      \<and> textureOverlay_frameCount (P5Grain_new (constant_source 0)) + 1 < animateAtFrame animate_config"
    by (simp add: animate_config_def animateAtFrame_def P5Grain_new_def)
  note below = inst [THEN conjunct2, THEN conjunct2, THEN conjunct2, THEN conjunct2,
      THEN conjunct2, THEN conjunct2, THEN conjunct1, THEN mp, OF h]
  have src': "\<forall>n. 0 \<le> random ((P5Grain_new (constant_source seven_tenths))
        \<lparr>textureOverlay_frameCount := 1\<rparr>) n
      \<and> random ((P5Grain_new (constant_source seven_tenths))\<lparr>textureOverlay_frameCount := 1\<rparr>) n < 1"
    by (simp add: P5Grain_new_def constant_source_def seven_tenths_range)
  note at = textureOverlay_failed_state [OF overlay_image_throws_interval src', THEN conjunct1]
  from overlay_image_throws inst below overlay_image_throws_interval at show ?thesis by blast
qed

text \<open>
  Claim C9 as it is written fails with animation enabled: the call whose first
  \<^verbatim>\<open>image\<close> throws leaves the overlay frame counter at \<open>1\<close>, not at the \<open>0\<close> it
  had before the call.
\<close>

theorem failed_call_state_counterexample:
  "textureOverlay raise_on_image (blank_surface 25 25 1) (blank_surface 10 10 1) animate_config NoPg
     (P5Grain_new (constant_source 0)) 0
   = Some ((P5Grain_new (constant_source 0))\<lparr>textureOverlay_frameCount := 1\<rparr>, 0,
           Some (HostError (Image Global 0 0 10 10)), [BlendMode Global MULTIPLY])
   \<and> (P5Grain_new (constant_source 0))\<lparr>textureOverlay_frameCount := 1\<rparr>
       \<noteq> P5Grain_new (constant_source 0)
   \<and> textureOverlay_frameCount ((P5Grain_new (constant_source 0))\<lparr>textureOverlay_frameCount := 1\<rparr>)
       \<noteq> textureOverlay_frameCount (P5Grain_new (constant_source 0))"
proof -
  have c: "textureOverlay_frameCount ((P5Grain_new (constant_source 0))\<lparr>textureOverlay_frameCount := 1\<rparr>)
       \<noteq> textureOverlay_frameCount (P5Grain_new (constant_source 0))"
    by (simp add: P5Grain_new_def)
  then have "(P5Grain_new (constant_source 0))\<lparr>textureOverlay_frameCount := 1\<rparr>
       \<noteq> P5Grain_new (constant_source 0)"
    by (metis)
  with c overlay_image_throws show ?thesis by blast
qed


end
